theory Spec2Isabelle
  imports Complex_Main "HOL-Library.Log_Nat" "HOL-Library.AList"
begin

section \<open>Python values used by the transaction processor\<close>

text \<open>
  \<^verbatim>\<open>transaction_processor.py\<close> computes with Python \<^verbatim>\<open>int\<close> (unbounded, modelled
  by \<^typ>\<open>int\<close>) and Python \<^verbatim>\<open>float\<close> (IEEE 754 binary64). A float is modelled
  by the rational it denotes, or one of the three special values. Every arithmetic
  result is rounded to the nearest double, ties to even, as the hardware does;
  negative zero is identified with zero (the code never observes its sign: it only
  compares floats with 0, truncates them, and divides, and a division by either zero
  raises).
\<close>

datatype py_float = Fin rat | PInf | NInf | NaN

text \<open>The exponent \<open>e\<close> with \<open>2 ^ e \<le> x < 2 ^ (e + 1)\<close>, for a positive rational.\<close>

definition binary_exponent :: "rat \<Rightarrow> int" where
  "binary_exponent x =
     (if 1 \<le> x then bitlen \<lfloor>x\<rfloor> - 1
      else let k = bitlen \<lfloor>1 / x\<rfloor> - 1
           in if x = 2 powi (- k) then - k else - k - 1)"

definition round_half_even :: "rat \<Rightarrow> int" where
  "round_half_even x =
     (let n = \<lfloor>x\<rfloor>; r = x - of_int n
      in if r < 1 / 2 then n
         else if 1 / 2 < r then n + 1
         else if even n then n else n + 1)"

text \<open>
  Rounding to binary64: 53 significant bits, smallest exponent \<open>- 1022\<close> (below it
  the spacing stays \<open>2 ^ - 1074\<close>: subnormals), overflow to infinity from \<open>2 ^ 1024\<close>.
\<close>

definition round_double :: "rat \<Rightarrow> py_float" where
  "round_double x =
     (if x = 0 then Fin 0
      else let a = \<bar>x\<bar>;
               e = max (binary_exponent a) (- 1022);
               ulp = 2 powi (e - 52);
               r = of_int (round_half_even (a / ulp)) * ulp
           in if 2 powi 1024 \<le> r then (if 0 < x then PInf else NInf)
              else Fin (sgn x * r))"

text \<open>
  The collaborators the processor awaits (the \<^verbatim>\<open>crud\<close> accessors and the lnbits
  wallet services). Each call may raise; which ones do is a parameter of the model.
\<close>

datatype ext_call =
    GetActiveConfig | UpdateTestResult | UpdatePollStart | UpdatePollSuccess
  | GetFlowClients | GetBalance string | GetAllPayments | GetPaymentsByTx string
  | CreatePayment string | UpdatePaymentStatus nat | CreateLamassuTx | UpdateStats
  | GetWallet string | UpdateWalletBalance string | CreateInvoice string | PayInvoice nat

datatype py_error =
    NameError string | ZeroDivisionError | OverflowError | ValueError | TypeError
  | ValidationError | CollaboratorError ext_call

definition py_bind :: "'e + 'a \<Rightarrow> ('a \<Rightarrow> 'e + 'b) \<Rightarrow> 'e + 'b" where
  "py_bind m f = (case m of Inl e \<Rightarrow> Inl e | Inr x \<Rightarrow> f x)"

fun float_neg :: "py_float \<Rightarrow> py_float" where
  "float_neg (Fin a) = Fin (- a)"
| "float_neg PInf = NInf"
| "float_neg NInf = PInf"
| "float_neg NaN = NaN"

fun float_add :: "py_float \<Rightarrow> py_float \<Rightarrow> py_float" where
  "float_add (Fin a) (Fin b) = round_double (a + b)"
| "float_add NaN y = NaN"
| "float_add x NaN = NaN"
| "float_add PInf NInf = NaN"
| "float_add NInf PInf = NaN"
| "float_add PInf y = PInf"
| "float_add NInf y = NInf"
| "float_add x PInf = PInf"
| "float_add x NInf = NInf"

definition float_sub :: "py_float \<Rightarrow> py_float \<Rightarrow> py_float" where
  "float_sub x y = float_add x (float_neg y)"

text \<open>The sign rule of a product or quotient with an infinite operand.\<close>

definition signed_inf :: "bool \<Rightarrow> py_float" where
  "signed_inf positive = (if positive then PInf else NInf)"

fun float_sign_pos :: "py_float \<Rightarrow> bool" where
  "float_sign_pos (Fin a) = (0 < a)"
| "float_sign_pos PInf = True"
| "float_sign_pos NInf = False"
| "float_sign_pos NaN = False"

fun float_mul :: "py_float \<Rightarrow> py_float \<Rightarrow> py_float" where
  "float_mul (Fin a) (Fin b) = round_double (a * b)"
| "float_mul NaN y = NaN"
| "float_mul x NaN = NaN"
| "float_mul (Fin a) y = (if a = 0 then NaN else signed_inf (float_sign_pos (Fin a) = float_sign_pos y))"
| "float_mul x (Fin b) = (if b = 0 then NaN else signed_inf (float_sign_pos x = float_sign_pos (Fin b)))"
| "float_mul x y = signed_inf (float_sign_pos x = float_sign_pos y)"

text \<open>
  \<^verbatim>\<open>x / y\<close> on floats raises \<^verbatim>\<open>ZeroDivisionError\<close> for a zero divisor, whatever
  the dividend; otherwise it is the IEEE quotient.
\<close>

fun float_div :: "py_float \<Rightarrow> py_float \<Rightarrow> py_error + py_float" where
  "float_div x (Fin b) =
     (if b = 0 then Inl ZeroDivisionError
      else case x of
             Fin a \<Rightarrow> Inr (round_double (a / b))
           | NaN \<Rightarrow> Inr NaN
           | _ \<Rightarrow> Inr (signed_inf (float_sign_pos x = (0 < b))))"
| "float_div x NaN = Inr NaN"
| "float_div (Fin a) y = Inr (Fin 0)"
| "float_div NaN y = Inr NaN"
| "float_div x y = Inr NaN"

text \<open>
  An \<^verbatim>\<open>int\<close> operand of a mixed operation is converted first (correctly rounded);
  the conversion raises \<^verbatim>\<open>OverflowError\<close> when the integer is beyond the doubles.
\<close>

definition float_of_int :: "int \<Rightarrow> py_error + py_float" where
  "float_of_int n =
     (case round_double (of_int n) of Fin r \<Rightarrow> Inr (Fin r) | _ \<Rightarrow> Inl OverflowError)"

text \<open>\<^verbatim>\<open>a / b\<close> on two ints: the correctly rounded quotient, as a float.\<close>

definition int_truediv :: "int \<Rightarrow> int \<Rightarrow> py_error + py_float" where
  "int_truediv a b =
     (if b = 0 then Inl ZeroDivisionError
      else case round_double (of_int a / of_int b) of
             Fin r \<Rightarrow> Inr (Fin r)
           | _ \<Rightarrow> Inl OverflowError)"

text \<open>\<^verbatim>\<open>int(x)\<close> on a float truncates toward zero.\<close>

definition toward_zero :: "rat \<Rightarrow> int" where
  "toward_zero r = (if 0 \<le> r then \<lfloor>r\<rfloor> else \<lceil>r\<rceil>)"

fun py_int :: "py_float \<Rightarrow> py_error + int" where
  "py_int (Fin r) = Inr (toward_zero r)"
| "py_int NaN = Inl ValueError"
| "py_int x = Inl OverflowError"

text \<open>\<^verbatim>\<open>x > 0\<close> on a float (false for NaN).\<close>

fun float_gt_zero :: "py_float \<Rightarrow> bool" where
  "float_gt_zero (Fin a) = (0 < a)"
| "float_gt_zero PInf = True"
| "float_gt_zero x = False"

text \<open>Truthiness of an optional string: \<^verbatim>\<open>None\<close> and \<^verbatim>\<open>""\<close> are false.\<close>

fun truthy :: "string option \<Rightarrow> bool" where
  "truthy None = False"
| "truthy (Some s) = (s \<noteq> [])"

section \<open>Data model\<close>

type_synonym instant = int

text \<open>
  A row of the remote ledger as \<^verbatim>\<open>execute_ssh_query\<close> returns it for the query of
  \<^verbatim>\<open>fetch_new_transactions\<close>: every selected column is a key of the dict, and a
  cell that was empty is \<^verbatim>\<open>None\<close>. The identifier is the primary key of the
  remote table. \<^verbatim>\<open>transaction_time\<close> is already an aware UTC datetime, so the
  normalisation at the head of \<^verbatim>\<open>calculate_distribution_amounts\<close> leaves it as it is.
\<close>

record lamassu_tx =
  transaction_id :: string
  fiat_amount :: "int option"
  crypto_amount :: "int option"
  transaction_time :: "instant option"
  device_id :: "string option"
  tx_status :: "string option"
  commission_percentage :: "py_float option"
  discount :: "py_float option"
  crypto_code :: "string option"
  fiat_code :: "string option"

text \<open>
  The active configuration record, with the fields the modelled functions read or
  write (host, port and the other connection parameters only reach the ssh command
  line).
\<close>

record lamassu_config =
  config_id :: string
  use_ssh_tunnel :: bool
  ssh_private_key :: "string option"
  source_wallet_id :: "string option"
  commission_wallet_id :: "string option"
  last_poll_time :: "instant option"
  last_successful_poll :: "instant option"
  test_connection_success :: "bool option"

record dca_client =
  client_id :: string
  client_wallet_id :: string

record distribution =
  dist_fiat_amount :: int
  sats_amount :: int
  dist_exchange_rate :: py_float

record dca_payment =
  payment_id :: nat
  payment_client_id :: string
  amount_sats :: int
  amount_fiat :: int
  payment_exchange_rate :: py_float
  transaction_type :: string
  lamassu_transaction_id :: "string option"
  payment_status :: string
  payment_transaction_time :: "instant option"

record stored_transaction =
  stored_id :: nat
  stored_lamassu_id :: string
  stored_fiat_amount :: int
  stored_crypto_amount :: int
  stored_commission_percentage :: py_float
  stored_discount :: py_float
  effective_commission :: py_float
  commission_amount_sats :: int
  base_amount_sats :: int
  stored_exchange_rate :: py_float
  stored_transaction_time :: "instant option"
  clients_count :: "nat option"
  distributions_total_sats :: "int option"

record invoice =
  invoice_wallet :: string
  invoice_amount :: int
  invoice_tag :: string
  invoice_transaction :: string

text \<open>
  The persistent state the processor works on: the local database (configuration,
  clients, payments, stored transactions) and the wallet service (balances, invoices
  created, invoices settled with the wallet that paid).
\<close>

record state =
  config :: "lamassu_config option"
  flow_clients :: "dca_client list"
  wallets :: "(string \<times> int) list"
  payments :: "dca_payment list"
  lamassu_transactions :: "stored_transaction list"
  invoices :: "invoice list"
  settled :: "(nat \<times> string) list"

datatype probe_query = SelectOne | CountCashOutTxs | DatabaseTimezone

type_synonym probe_row = "(string \<times> string option) list"

text \<open>
  What lies outside the program: which collaborator calls raise, the clock, the
  balance a client has as of an instant, and what the remote host answers.
\<close>

record env =
  raises :: "ext_call \<Rightarrow> bool"
  now :: instant
  remaining_balance :: "state \<Rightarrow> string \<Rightarrow> instant option \<Rightarrow> int"
  ssh_available :: bool
  tunnel_established :: bool
  remote_probe :: "probe_query \<Rightarrow> probe_row list"
  remote_transactions :: "instant \<Rightarrow> lamassu_tx list"
  invoice_declined :: "string \<Rightarrow> bool"

definition call :: "env \<Rightarrow> ext_call \<Rightarrow> 'a \<Rightarrow> py_error + 'a" where
  "call ev c result = (if raises ev c then Inl (CollaboratorError c) else Inr result)"

section \<open>Collaborators outside the source file\<close>

text \<open>
  Modelled from the spec: the \<^verbatim>\<open>crud\<close> accessor \<^verbatim>\<open>get_active_lamassu_config\<close>
  ("get active configuration") is not among the sources. It reads the configuration
  record, or \<^verbatim>\<open>None\<close> when there is none.
\<close>

definition get_active_lamassu_config :: "env \<Rightarrow> state \<Rightarrow> py_error + lamassu_config option" where
  "get_active_lamassu_config ev s = call ev GetActiveConfig (config s)"

text \<open>
  Modelled from the spec: \<^verbatim>\<open>update_config_test_result\<close> ("update test-result flag")
  stores the boolean against the configuration record of that identifier.
\<close>

definition update_config_test_result :: "env \<Rightarrow> string \<Rightarrow> bool \<Rightarrow> state \<Rightarrow> py_error + state" where
  "update_config_test_result ev cid outcome s =
     call ev UpdateTestResult
       (s\<lparr>config := map_option
            (\<lambda>c. if config_id c = cid then c\<lparr>test_connection_success := Some outcome\<rparr> else c)
            (config s)\<rparr>)"

text \<open>
  Modelled from the spec: \<^verbatim>\<open>update_poll_start_time\<close> and
  \<^verbatim>\<open>update_poll_success_time\<close> ("update watermark fields") store the current
  instant as the last attempted, respectively last successful, poll.
\<close>

definition update_poll_start_time :: "env \<Rightarrow> string \<Rightarrow> state \<Rightarrow> py_error + state" where
  "update_poll_start_time ev cid s =
     call ev UpdatePollStart
       (s\<lparr>config := map_option
            (\<lambda>c. if config_id c = cid then c\<lparr>last_poll_time := Some (now ev)\<rparr> else c)
            (config s)\<rparr>)"

definition update_poll_success_time :: "env \<Rightarrow> string \<Rightarrow> state \<Rightarrow> py_error + state" where
  "update_poll_success_time ev cid s =
     call ev UpdatePollSuccess
       (s\<lparr>config := map_option
            (\<lambda>c. if config_id c = cid then c\<lparr>last_successful_poll := Some (now ev)\<rparr> else c)
            (config s)\<rparr>)"

text \<open>
  Modelled from the spec: \<^verbatim>\<open>get_flow_mode_clients\<close> ("get participants") lists the
  eligible participants; \<^verbatim>\<open>get_client_balance_summary\<close> ("get balance-as-of") gives
  a participant's remaining balance as of the instant it is passed (\<^verbatim>\<open>None\<close>: the
  current balance).
\<close>

definition get_flow_mode_clients :: "env \<Rightarrow> state \<Rightarrow> py_error + dca_client list" where
  "get_flow_mode_clients ev s = call ev GetFlowClients (flow_clients s)"

definition get_client_balance_summary ::
  "env \<Rightarrow> state \<Rightarrow> string \<Rightarrow> instant option \<Rightarrow> py_error + int" where
  "get_client_balance_summary ev s cid as_of_time =
     call ev (GetBalance cid) (remaining_balance ev s cid as_of_time)"

text \<open>
  Modelled from the spec: the payment accessors ("create/update payment record").
  \<^verbatim>\<open>get_payments_by_lamassu_transaction\<close> returns the payments linked to the
  identifier; \<^verbatim>\<open>create_dca_payment\<close> persists a payment in state \<^verbatim>\<open>pending\<close> and
  returns it; \<^verbatim>\<open>update_dca_payment_status\<close> overwrites the status of one payment.
\<close>

definition get_all_payments :: "env \<Rightarrow> state \<Rightarrow> py_error + dca_payment list" where
  "get_all_payments ev s = call ev GetAllPayments (payments s)"

definition get_payments_by_lamassu_transaction ::
  "env \<Rightarrow> state \<Rightarrow> string \<Rightarrow> py_error + dca_payment list" where
  "get_payments_by_lamassu_transaction ev s tid =
     call ev (GetPaymentsByTx tid)
       (filter (\<lambda>p. lamassu_transaction_id p = Some tid) (payments s))"

definition create_dca_payment ::
  "env \<Rightarrow> string \<Rightarrow> distribution \<Rightarrow> string \<Rightarrow> instant option \<Rightarrow> state
     \<Rightarrow> py_error + (dca_payment \<times> state)" where
  "create_dca_payment ev cid d tid t s =
     (let p = \<lparr>payment_id = length (payments s), payment_client_id = cid,
                amount_sats = sats_amount d, amount_fiat = dist_fiat_amount d,
                payment_exchange_rate = dist_exchange_rate d, transaction_type = ''flow'',
                lamassu_transaction_id = Some tid, payment_status = ''pending'',
                payment_transaction_time = t\<rparr>
      in call ev (CreatePayment cid) (p, s\<lparr>payments := payments s @ [p]\<rparr>))"

definition update_dca_payment_status :: "env \<Rightarrow> nat \<Rightarrow> string \<Rightarrow> state \<Rightarrow> py_error + state" where
  "update_dca_payment_status ev pid status s =
     call ev (UpdatePaymentStatus pid)
       (s\<lparr>payments := map (\<lambda>p. if payment_id p = pid then p\<lparr>payment_status := status\<rparr> else p)
                           (payments s)\<rparr>)"

text \<open>
  Modelled from the spec: the stored-transaction accessors ("create/update
  stored-transaction record").
\<close>

definition create_lamassu_transaction ::
  "env \<Rightarrow> stored_transaction \<Rightarrow> state \<Rightarrow> py_error + (nat \<times> state)" where
  "create_lamassu_transaction ev d s =
     (let i = length (lamassu_transactions s)
      in call ev CreateLamassuTx
           (i, s\<lparr>lamassu_transactions := lamassu_transactions s @ [d\<lparr>stored_id := i\<rparr>]\<rparr>))"

definition update_lamassu_transaction_distribution_stats ::
  "env \<Rightarrow> nat \<Rightarrow> nat \<Rightarrow> int \<Rightarrow> state \<Rightarrow> py_error + state" where
  "update_lamassu_transaction_distribution_stats ev i n total_sats s =
     call ev UpdateStats
       (s\<lparr>lamassu_transactions :=
            map (\<lambda>t. if stored_id t = i
                      then t\<lparr>clients_count := Some n, distributions_total_sats := Some total_sats\<rparr>
                      else t)
                (lamassu_transactions s)\<rparr>)"

text \<open>
  Modelled from the spec: the wallet service. \<^verbatim>\<open>get_wallet\<close> is
  \<^verbatim>\<open>getAccount(id) -> Account|null\<close>, \<^verbatim>\<open>update_wallet_balance\<close> is
  \<^verbatim>\<open>creditAccount(account, atomicAmount)\<close>, \<^verbatim>\<open>create_invoice\<close> is
  \<^verbatim>\<open>createPayoutInvoice\<close> (the handle is the invoice's position; the service may
  also decline and return nothing) and \<^verbatim>\<open>pay_invoice\<close> is \<^verbatim>\<open>settleInvoice\<close>.
\<close>

definition get_wallet :: "env \<Rightarrow> state \<Rightarrow> string \<Rightarrow> py_error + string option" where
  "get_wallet ev s wid =
     call ev (GetWallet wid) (if wid \<in> fst ` set (wallets s) then Some wid else None)"

definition update_wallet_balance :: "env \<Rightarrow> string \<Rightarrow> int \<Rightarrow> state \<Rightarrow> py_error + state" where
  "update_wallet_balance ev wid amount s =
     call ev (UpdateWalletBalance wid)
       (s\<lparr>wallets := map (\<lambda>(w, b). if w = wid then (w, b + amount) else (w, b)) (wallets s)\<rparr>)"

definition create_invoice ::
  "env \<Rightarrow> string \<Rightarrow> int \<Rightarrow> string \<Rightarrow> string \<Rightarrow> state \<Rightarrow> py_error + (nat option \<times> state)" where
  "create_invoice ev wid amount tag tid s =
     call ev (CreateInvoice wid)
       (if invoice_declined ev wid then (None, s)
        else (Some (length (invoices s)),
              s\<lparr>invoices := invoices s @
                   [\<lparr>invoice_wallet = wid, invoice_amount = amount, invoice_tag = tag,
                     invoice_transaction = tid\<rparr>]\<rparr>))"

definition pay_invoice :: "env \<Rightarrow> nat \<Rightarrow> string \<Rightarrow> state \<Rightarrow> py_error + state" where
  "pay_invoice ev bolt11 wid s =
     call ev (PayInvoice bolt11) (s\<lparr>settled := settled s @ [(bolt11, wid)]\<rparr>)"

section \<open>Name resolution\<close>

text \<open>
  A name a function reads is looked up among the function's own bindings, then
  among the names the module binds at top level (its imports, the class, the
  processor instance and the entry point); no builtin is called
  \<^verbatim>\<open>transaction_time\<close>. A name found nowhere raises \<^verbatim>\<open>NameError\<close>.
\<close>

datatype pyval = VNone | VStr string | VInt int | VFloat py_float | VTime instant | VObject

definition module_globals :: "string list" where
  "module_globals =
     [''asyncio'', ''asyncpg'', ''datetime'', ''timedelta'', ''timezone'', ''List'',
      ''Optional'', ''Dict'', ''Any'', ''logger'', ''socket'', ''threading'', ''time'',
      ''asyncssh'', ''subprocess'', ''SSH_AVAILABLE'', ''create_invoice'', ''pay_invoice'',
      ''get_wallet'', ''update_wallet_balance'', ''settings'', ''get_flow_mode_clients'',
      ''get_payments_by_lamassu_transaction'', ''create_dca_payment'',
      ''get_client_balance_summary'', ''get_active_lamassu_config'',
      ''update_config_test_result'', ''update_poll_start_time'',
      ''update_poll_success_time'', ''update_dca_payment_status'',
      ''create_lamassu_transaction'', ''update_lamassu_transaction_distribution_stats'',
      ''CreateDcaPaymentData'', ''LamassuTransaction'', ''DcaClient'',
      ''CreateLamassuTransactionData'', ''LamassuTransactionProcessor'',
      ''transaction_processor'', ''poll_lamassu_transactions'']"

definition load_name :: "(string \<times> pyval) list \<Rightarrow> string \<Rightarrow> py_error + pyval" where
  "load_name bindings n =
     (case map_of bindings n of
        Some v \<Rightarrow> Inr v
      | None \<Rightarrow> if n \<in> set module_globals then Inr VObject else Inl (NameError n))"

text \<open>The value a data class accepts for an optional timestamp field.\<close>

fun as_time :: "pyval \<Rightarrow> py_error + instant option" where
  "as_time (VTime t) = Inr (Some t)"
| "as_time VNone = Inr None"
| "as_time v = Inl ValidationError"

fun int_value :: "int option \<Rightarrow> pyval" where
  "int_value None = VNone"
| "int_value (Some n) = VInt n"

section \<open>Configuration and the diagnostic probe\<close>

text \<open>\<^verbatim>\<open>get_db_config\<close> (lines 55-79): the configuration, or \<^verbatim>\<open>None\<close> when there is
  none or the read raised.\<close>

definition get_db_config :: "env \<Rightarrow> state \<Rightarrow> lamassu_config option" where
  "get_db_config ev s =
     (case get_active_lamassu_config ev s of
        Inl e \<Rightarrow> None
      | Inr None \<Rightarrow> None
      | Inr (Some c) \<Rightarrow> Some c)"

text \<open>
  \<^verbatim>\<open>setup_ssh_tunnel\<close> (lines 81-100): the connection parameters themselves when no
  tunnel is asked for; otherwise whether the ssh subprocess came up is a fact of the
  environment. Every exception is caught inside.
\<close>

definition setup_ssh_tunnel :: "env \<Rightarrow> lamassu_config \<Rightarrow> lamassu_config option" where
  "setup_ssh_tunnel ev db_config =
     (if \<not> use_ssh_tunnel db_config then Some db_config
      else if \<not> ssh_available ev then None
      else if tunnel_established ev then Some db_config else None)"

text \<open>
  \<^verbatim>\<open>execute_ssh_query\<close> (lines 399-533): without a private key the result is empty;
  with one, it is the rows parsed from the remote command's output, and the empty list
  when the command fails, prints nothing or anything raises. The second argument is
  what the remote host answers.
\<close>

definition execute_ssh_query :: "lamassu_config \<Rightarrow> 'r list \<Rightarrow> 'r list" where
  "execute_ssh_query db_config remote =
     (if truthy (ssh_private_key db_config) then remote else [])"

datatype probe_step =
    RetrievingConfiguration | NoConfigurationFound | ConfigurationRetrieved
  | SettingUpTunnel | SshSupportMissing | TunnelFailed | TunnelEstablished
  | DirectConnection | TestingQuery | QueryFailed | QuerySuccessful
  | TestingTable | TableFailed | TableSuccessful "string option"
  | CheckingTimezone | DatabaseTime "string option" "string option" | TimezoneUnknown

record test_result =
  success :: bool
  message :: string
  steps :: "probe_step list"
  ssh_tunnel_used :: bool
  ssh_tunnel_success :: bool
  database_connection_success :: bool
  result_config_id :: "string option"

definition initial_result :: test_result where
  "initial_result =
     \<lparr>success = False, message = [], steps = [], ssh_tunnel_used = False,
      ssh_tunnel_success = False, database_connection_success = False,
      result_config_id = None\<rparr>"

definition add_step :: "probe_step \<Rightarrow> test_result \<Rightarrow> test_result" where
  "add_step st r = r\<lparr>steps := steps r @ [st]\<rparr>"

text \<open>\<^verbatim>\<open>row.get(key, default)\<close> on a parsed row.\<close>

definition row_get :: "probe_row \<Rightarrow> string \<Rightarrow> string \<Rightarrow> string option" where
  "row_get row k dflt = (case map_of row k of None \<Rightarrow> Some dflt | Some v \<Rightarrow> v)"

text \<open>
  The body of the \<^verbatim>\<open>try\<close> of \<^verbatim>\<open>test_connection_detailed\<close> (lines 283-355) leaves
  in one of two ways: a \<^verbatim>\<open>return result\<close> inside it leaves the function at once,
  or control falls through to the statements after the \<^verbatim>\<open>try\<close>. (Its
  \<^verbatim>\<open>except\<close> clause has nothing to catch: \<^verbatim>\<open>get_db_config\<close>,
  \<^verbatim>\<open>setup_ssh_tunnel\<close> and \<^verbatim>\<open>execute_ssh_query\<close> each catch every exception
  themselves.)
\<close>

datatype 'a flow = Return 'a | FallThrough 'a

definition probe_tunnel :: "env \<Rightarrow> lamassu_config \<Rightarrow> test_result \<Rightarrow> test_result flow" where
  "probe_tunnel ev db_config r =
     (if use_ssh_tunnel db_config then
        (let r1 = add_step SettingUpTunnel (r\<lparr>ssh_tunnel_used := True\<rparr>)
         in if \<not> ssh_available ev then
              Return (add_step SshSupportMissing
                (r1\<lparr>message := ''SSH tunnel required but SSH support not available''\<rparr>))
            else case setup_ssh_tunnel ev db_config of
                   None \<Rightarrow>
                     Return (add_step TunnelFailed
                       (r1\<lparr>message := ''Failed to establish SSH tunnel''\<rparr>))
                 | Some connection_config \<Rightarrow>
                     FallThrough (add_step TunnelEstablished (r1\<lparr>ssh_tunnel_success := True\<rparr>)))
      else FallThrough (add_step DirectConnection r))"

definition probe_queries :: "env \<Rightarrow> lamassu_config \<Rightarrow> test_result \<Rightarrow> test_result flow" where
  "probe_queries ev db_config r =
     (let r1 = add_step TestingQuery r;
          test_results = execute_ssh_query db_config (remote_probe ev SelectOne)
      in if test_results = [] then
           Return (add_step QueryFailed
             (r1\<lparr>message := ''SSH connection succeeded but database query failed''\<rparr>))
         else
           (let r2 = add_step TestingTable
                       (add_step QuerySuccessful (r1\<lparr>database_connection_success := True\<rparr>));
                table_results = execute_ssh_query db_config (remote_probe ev CountCashOutTxs)
            in case table_results of
                 [] \<Rightarrow>
                   Return (add_step TableFailed
                     (r2\<lparr>message := ''Connected but cash_out_txs table not accessible''\<rparr>))
               | row # rest \<Rightarrow>
                   (let r3 = add_step CheckingTimezone
                               (add_step (TableSuccessful (row_get row ''count'' ''0'')) r2);
                        timezone_results =
                          execute_ssh_query db_config (remote_probe ev DatabaseTimezone);
                        r4 = (case timezone_results of
                                [] \<Rightarrow> add_step TimezoneUnknown r3
                              | tz # others \<Rightarrow>
                                  add_step (DatabaseTime (row_get tz ''db_time'' ''unknown'')
                                              (row_get tz ''timezone_offset'' ''unknown'')) r3)
                    in FallThrough
                         (r4\<lparr>success := True,
                            message := ''All connection tests passed successfully''\<rparr>))))"

definition probe_body :: "env \<Rightarrow> state \<Rightarrow> test_result flow" where
  "probe_body ev s =
     (let r0 = add_step RetrievingConfiguration initial_result
      in case get_db_config ev s of
           None \<Rightarrow>
             Return (add_step NoConfigurationFound
               (r0\<lparr>message := ''No active Lamassu database configuration found''\<rparr>))
         | Some db_config \<Rightarrow>
             (let r1 = add_step ConfigurationRetrieved
                         (r0\<lparr>result_config_id := Some (config_id db_config)\<rparr>)
              in case probe_tunnel ev db_config r1 of
                   Return r \<Rightarrow> Return r
                 | FallThrough r2 \<Rightarrow> probe_queries ev db_config r2))"

text \<open>
  \<^verbatim>\<open>test_connection_detailed\<close> (lines 270-379). The statements after the
  \<^verbatim>\<open>try\<close> (lines 372-379) store the outcome when the result carries a
  configuration identifier; a failure of that write is logged and dropped.
\<close>

definition test_connection_detailed :: "env \<Rightarrow> state \<Rightarrow> test_result \<times> state" where
  "test_connection_detailed ev s =
     (case probe_body ev s of
        Return r \<Rightarrow> (r, s)
      | FallThrough r \<Rightarrow>
          (case result_config_id r of
             None \<Rightarrow> (r, s)
           | Some cid \<Rightarrow>
               (if cid = [] then (r, s)
                else case update_config_test_result ev cid (success r) s of
                       Inl e \<Rightarrow> (r, s)
                     | Inr s' \<Rightarrow> (r, s'))))"

text \<open>\<^verbatim>\<open>connect_to_lamassu_db\<close> (lines 381-397).\<close>

definition connect_to_lamassu_db :: "env \<Rightarrow> state \<Rightarrow> lamassu_config option \<times> state" where
  "connect_to_lamassu_db ev s =
     (case get_db_config ev s of
        None \<Rightarrow> (None, s)
      | Some db_config \<Rightarrow>
          (case update_config_test_result ev (config_id db_config) True s of
             Inl e \<Rightarrow> (Some db_config, s)
           | Inr s' \<Rightarrow> (Some db_config, s')))"

section \<open>Fetching and allocation\<close>

text \<open>\<^verbatim>\<open>fetch_new_transactions\<close> (lines 535-603). The remote filter is applied by the
  remote database; \<^verbatim>\<open>remote_transactions\<close> is its answer for the threshold.\<close>

definition fetch_new_transactions :: "env \<Rightarrow> state \<Rightarrow> lamassu_config \<Rightarrow> lamassu_tx list" where
  "fetch_new_transactions ev s db_config =
     (case get_active_lamassu_config ev s of
        Inl e \<Rightarrow> []
      | Inr cfg \<Rightarrow>
          (let time_threshold =
                 (case cfg of
                    None \<Rightarrow> now ev - 86400
                  | Some c \<Rightarrow> (case last_successful_poll c of
                                None \<Rightarrow> now ev - 86400
                              | Some t \<Rightarrow> t));
               all_transactions =
                 execute_ssh_query db_config (remote_transactions ev time_threshold)
           in case get_all_payments ev s of
                Inl e \<Rightarrow> []
              | Inr processed_payments \<Rightarrow>
                  (let processed_transaction_ids =
                         map lamassu_transaction_id
                           (filter (\<lambda>p. truthy (lamassu_transaction_id p)) processed_payments)
                   in filter (\<lambda>tx. Some (transaction_id tx) \<notin> set processed_transaction_ids)
                        all_transactions)))"

text \<open>A missing percentage counts as \<^verbatim>\<open>0.0\<close>.\<close>

fun float_or_zero :: "py_float option \<Rightarrow> py_float" where
  "float_or_zero None = Fin 0"
| "float_or_zero (Some x) = x"

text \<open>
  The commission block, written out three times in the source with the same text
  (lines 653-663, 891-898 and 1017-1022): effective commission, base amount and
  commission amount.
  \<^verbatim>\<open>
  if commission_percentage > 0:
      effective_commission = commission_percentage * (100 - discount) / 100
      base_crypto_atoms = int(crypto_atoms / (1 + effective_commission))
      commission_amount_sats = crypto_atoms - base_crypto_atoms
  else:
      effective_commission = 0.0
      base_crypto_atoms = crypto_atoms
      commission_amount_sats = 0
  \<close>
\<close>

definition commission_breakdown ::
  "py_float \<Rightarrow> py_float \<Rightarrow> int \<Rightarrow> py_error + (py_float \<times> int \<times> int)" where
  "commission_breakdown commission discnt crypto_atoms =
     (if float_gt_zero commission then
        py_bind (float_div (float_mul commission (float_sub (Fin 100) discnt)) (Fin 100))
          (\<lambda>effective.
        py_bind (float_of_int crypto_atoms)
          (\<lambda>atoms.
        py_bind (float_div atoms (float_add (Fin 1) effective))
          (\<lambda>q.
        py_bind (py_int q)
          (\<lambda>base_crypto_atoms.
        Inr (effective, base_crypto_atoms, crypto_atoms - base_crypto_atoms)))))
      else Inr (Fin 0, crypto_atoms, 0))"

text \<open>Line 666: \<^verbatim>\<open>base_crypto_atoms / fiat_amount if fiat_amount > 0 else 0\<close>.\<close>

definition exchange_rate_of :: "int \<Rightarrow> int \<Rightarrow> py_error + py_float" where
  "exchange_rate_of base_crypto_atoms fiat =
     (if 0 < fiat then int_truediv base_crypto_atoms fiat else Inr (Fin 0))"

text \<open>The first loop (lines 680-685): the clients with a positive remaining balance
  as of the transaction time, in a dict, and the sum of their balances.\<close>

fun collect_balances ::
  "env \<Rightarrow> state \<Rightarrow> instant option \<Rightarrow> dca_client list \<Rightarrow> (string \<times> int) list \<Rightarrow> int
     \<Rightarrow> py_error + ((string \<times> int) list \<times> int)" where
  "collect_balances ev s t [] client_balances total_deposits = Inr (client_balances, total_deposits)"
| "collect_balances ev s t (client # rest) client_balances total_deposits =
     (case get_client_balance_summary ev s (client_id client) t of
        Inl e \<Rightarrow> Inl e
      | Inr balance \<Rightarrow>
          (if 0 < balance
           then collect_balances ev s t rest
                  (AList.update (client_id client) balance client_balances) (total_deposits + balance)
           else collect_balances ev s t rest client_balances total_deposits))"

text \<open>The body of the second loop (lines 695-709), for one client.\<close>

definition client_share :: "int \<Rightarrow> py_float \<Rightarrow> int \<Rightarrow> int \<Rightarrow> py_error + distribution" where
  "client_share base_crypto_atoms exchange_rate total_deposits client_balance =
     py_bind (int_truediv client_balance total_deposits)
       (\<lambda>proportion.
     py_bind (float_of_int base_crypto_atoms)
       (\<lambda>base.
     py_bind (py_int (float_mul base proportion))
       (\<lambda>client_sats_amount.
     py_bind (if float_gt_zero exchange_rate
              then py_bind (float_of_int client_sats_amount)
                     (\<lambda>sats. py_bind (float_div sats exchange_rate) py_int)
              else Inr 0)
       (\<lambda>client_fiat_amount.
     Inr \<lparr>dist_fiat_amount = client_fiat_amount, sats_amount = client_sats_amount,
          dist_exchange_rate = exchange_rate\<rparr>))))"

fun share_out ::
  "int \<Rightarrow> py_float \<Rightarrow> int \<Rightarrow> (string \<times> int) list \<Rightarrow> py_error + (string \<times> distribution) list" where
  "share_out base_crypto_atoms exchange_rate total_deposits [] = Inr []"
| "share_out base_crypto_atoms exchange_rate total_deposits ((cid, client_balance) # rest) =
     (case client_share base_crypto_atoms exchange_rate total_deposits client_balance of
        Inl e \<Rightarrow> Inl e
      | Inr d \<Rightarrow>
          (case share_out base_crypto_atoms exchange_rate total_deposits rest of
             Inl e \<Rightarrow> Inl e
           | Inr ds \<Rightarrow> Inr ((cid, d) # ds)))"

definition distribution_body ::
  "env \<Rightarrow> state \<Rightarrow> lamassu_tx \<Rightarrow> py_error + (string \<times> distribution) list" where
  "distribution_body ev s tx =
     py_bind (get_flow_mode_clients ev s)
       (\<lambda>clients.
     if clients = [] then Inr []
     else case crypto_amount tx of
       None \<Rightarrow> Inr []
     | Some crypto_atoms \<Rightarrow>
     (case fiat_amount tx of
       None \<Rightarrow> Inr []
     | Some fiat \<Rightarrow>
     py_bind (commission_breakdown (float_or_zero (commission_percentage tx))
                (float_or_zero (discount tx)) crypto_atoms)
       (\<lambda>(effective, base_crypto_atoms, commission_sats).
     py_bind (exchange_rate_of base_crypto_atoms fiat)
       (\<lambda>exchange_rate.
     py_bind (collect_balances ev s (transaction_time tx) clients [] 0)
       (\<lambda>(client_balances, total_confirmed_deposits).
     if total_confirmed_deposits = 0 then Inr []
     else share_out base_crypto_atoms exchange_rate total_confirmed_deposits
            client_balances)))))"

text \<open>\<^verbatim>\<open>calculate_distribution_amounts\<close> (lines 605-717): any exception gives the
  empty dict.\<close>

definition calculate_distribution_amounts ::
  "env \<Rightarrow> state \<Rightarrow> lamassu_tx \<Rightarrow> (string \<times> distribution) list" where
  "calculate_distribution_amounts ev s tx =
     (case distribution_body ev s tx of Inl e \<Rightarrow> [] | Inr ds \<Rightarrow> ds)"

section \<open>Settlement\<close>

text \<open>
  \<^verbatim>\<open>send_dca_payment\<close> (lines 766-840). The memo is text only. An invoice that was
  created stays created when a later step fails.
\<close>

definition send_dca_payment ::
  "env \<Rightarrow> dca_client \<Rightarrow> distribution \<Rightarrow> string \<Rightarrow> state \<Rightarrow> bool \<times> state" where
  "send_dca_payment ev client d tid s =
     (case get_wallet ev s (client_wallet_id client) of
        Inl e \<Rightarrow> (False, s)
      | Inr None \<Rightarrow> (False, s)
      | Inr (Some target_wallet) \<Rightarrow>
          (case create_invoice ev target_wallet (sats_amount d) ''dca_distribution'' tid s of
             Inl e \<Rightarrow> (False, s)
           | Inr (None, s1) \<Rightarrow> (False, s1)
           | Inr (Some bolt11, s1) \<Rightarrow>
               (case get_active_lamassu_config ev s1 of
                  Inl e \<Rightarrow> (False, s1)
                | Inr None \<Rightarrow> (False, s1)
                | Inr (Some admin_config) \<Rightarrow>
                    (if \<not> truthy (source_wallet_id admin_config) then (True, s1)
                     else case source_wallet_id admin_config of
                            None \<Rightarrow> (True, s1)
                          | Some source \<Rightarrow>
                              (case pay_invoice ev bolt11 source s1 of
                                 Inl e \<Rightarrow> (False, s1)
                               | Inr s2 \<Rightarrow> (True, s2))))))"

text \<open>\<^verbatim>\<open>credit_source_wallet\<close> (lines 842-871). A missing amount makes the wallet
  service raise.\<close>

definition credit_source_wallet :: "env \<Rightarrow> lamassu_tx \<Rightarrow> state \<Rightarrow> bool \<times> state" where
  "credit_source_wallet ev tx s =
     (case get_active_lamassu_config ev s of
        Inl e \<Rightarrow> (False, s)
      | Inr None \<Rightarrow> (False, s)
      | Inr (Some admin_config) \<Rightarrow>
          (case source_wallet_id admin_config of
             None \<Rightarrow> (False, s)
           | Some source \<Rightarrow>
               (if source = [] then (False, s)
                else case get_wallet ev s source of
                       Inl e \<Rightarrow> (False, s)
                     | Inr None \<Rightarrow> (False, s)
                     | Inr (Some source_wallet) \<Rightarrow>
                         (case crypto_amount tx of
                            None \<Rightarrow> (False, s)
                          | Some crypto_atoms \<Rightarrow>
                              (case update_wallet_balance ev source_wallet crypto_atoms s of
                                 Inl e \<Rightarrow> (False, s)
                               | Inr s' \<Rightarrow> (True, s'))))))"

text \<open>\<^verbatim>\<open>update_payment_status\<close> (lines 873-879).\<close>

definition update_payment_status :: "env \<Rightarrow> nat \<Rightarrow> string \<Rightarrow> state \<Rightarrow> state" where
  "update_payment_status ev pid status s =
     (case update_dca_payment_status ev pid status s of Inl e \<Rightarrow> s | Inr s' \<Rightarrow> s')"

text \<open>
  \<^verbatim>\<open>store_lamassu_transaction\<close> (lines 881-927). The bindings are the names the
  function has assigned when it builds \<^verbatim>\<open>CreateLamassuTransactionData\<close>; the last
  keyword argument reads \<^verbatim>\<open>transaction_time\<close>.
\<close>

definition store_bindings ::
  "lamassu_tx \<Rightarrow> py_float \<Rightarrow> py_float \<Rightarrow> py_float \<Rightarrow> int option \<Rightarrow> int \<Rightarrow> py_float
     \<Rightarrow> (string \<times> pyval) list" where
  "store_bindings tx commission discnt effective base commission_sats exchange_rate =
     [(''self'', VObject), (''transaction'', VObject),
      (''crypto_atoms'', int_value (crypto_amount tx)),
      (''fiat_amount'', int_value (fiat_amount tx)),
      (''commission_percentage'', VFloat commission), (''discount'', VFloat discnt),
      (''effective_commission'', VFloat effective),
      (''base_crypto_atoms'', int_value base),
      (''commission_amount_sats'', VInt commission_sats),
      (''exchange_rate'', VFloat exchange_rate)]"

definition store_body :: "env \<Rightarrow> lamassu_tx \<Rightarrow> state \<Rightarrow> py_error + (nat \<times> state)" where
  "store_body ev tx s =
     (let commission = float_or_zero (commission_percentage tx);
          discnt = float_or_zero (discount tx)
      in py_bind
           (case crypto_amount tx of
              None \<Rightarrow> if float_gt_zero commission then Inl TypeError else Inr (Fin 0, None, 0)
            | Some crypto_atoms \<Rightarrow>
                py_bind (commission_breakdown commission discnt crypto_atoms)
                  (\<lambda>(effective, base, commission_sats). Inr (effective, Some base, commission_sats)))
           (\<lambda>(effective, base, commission_sats).
         py_bind
           (case fiat_amount tx of
              None \<Rightarrow> Inl TypeError
            | Some fiat \<Rightarrow>
                if 0 < fiat
                then (case base of None \<Rightarrow> Inl TypeError | Some b \<Rightarrow> int_truediv b fiat)
                else Inr (Fin 0))
           (\<lambda>exchange_rate.
         py_bind
           (load_name
              (store_bindings tx commission discnt effective base commission_sats exchange_rate)
              ''transaction_time'')
           (\<lambda>v.
         py_bind (as_time v)
           (\<lambda>t.
         case (crypto_amount tx, fiat_amount tx, base) of
           (Some crypto_atoms, Some fiat, Some b) \<Rightarrow>
             create_lamassu_transaction ev
               \<lparr>stored_id = 0, stored_lamassu_id = transaction_id tx,
                stored_fiat_amount = fiat, stored_crypto_amount = crypto_atoms,
                stored_commission_percentage = commission, stored_discount = discnt,
                effective_commission = effective, commission_amount_sats = commission_sats,
                base_amount_sats = b, stored_exchange_rate = exchange_rate,
                stored_transaction_time = t, clients_count = None,
                distributions_total_sats = None\<rparr> s
         | _ \<Rightarrow> Inl ValidationError)))))"

definition store_lamassu_transaction :: "env \<Rightarrow> lamassu_tx \<Rightarrow> state \<Rightarrow> nat option \<times> state" where
  "store_lamassu_transaction ev tx s =
     (case store_body ev tx s of Inl e \<Rightarrow> (None, s) | Inr (i, s') \<Rightarrow> (Some i, s'))"

text \<open>
  \<^verbatim>\<open>distribute_to_clients\<close> (lines 719-764): the body of the loop for one client,
  inside its own \<^verbatim>\<open>try\<close>. The keyword argument \<^verbatim>\<open>transaction_time\<close> of
  \<^verbatim>\<open>CreateDcaPaymentData\<close> reads the name \<^verbatim>\<open>transaction_time\<close>.
\<close>

definition distribute_bindings :: "string \<Rightarrow> string \<Rightarrow> (string \<times> pyval) list" where
  "distribute_bindings tid cid =
     [(''self'', VObject), (''transaction'', VObject), (''distributions'', VObject),
      (''transaction_id'', VStr tid), (''client_id'', VStr cid), (''distribution'', VObject),
      (''flow_clients'', VObject), (''client'', VObject)]"

definition distribute_one :: "env \<Rightarrow> lamassu_tx \<Rightarrow> string \<Rightarrow> distribution \<Rightarrow> state \<Rightarrow> state" where
  "distribute_one ev tx cid d s =
     (case get_flow_mode_clients ev s of
        Inl e \<Rightarrow> s
      | Inr clients \<Rightarrow>
          (case find (\<lambda>c. client_id c = cid) clients of
             None \<Rightarrow> s
           | Some client \<Rightarrow>
               (case py_bind (load_name (distribute_bindings (transaction_id tx) cid)
                                ''transaction_time'') as_time of
                  Inl e \<Rightarrow> s
                | Inr t \<Rightarrow>
                    (case create_dca_payment ev cid d (transaction_id tx) t s of
                       Inl e \<Rightarrow> s
                     | Inr (dca_payment, s1) \<Rightarrow>
                         (case send_dca_payment ev client d (transaction_id tx) s1 of
                            (True, s2) \<Rightarrow>
                              update_payment_status ev (payment_id dca_payment) ''confirmed'' s2
                          | (False, s2) \<Rightarrow>
                              update_payment_status ev (payment_id dca_payment) ''failed'' s2)))))"

fun distribute_to_clients ::
  "env \<Rightarrow> lamassu_tx \<Rightarrow> (string \<times> distribution) list \<Rightarrow> state \<Rightarrow> state" where
  "distribute_to_clients ev tx [] s = s"
| "distribute_to_clients ev tx ((cid, d) # rest) s =
     distribute_to_clients ev tx rest (distribute_one ev tx cid d s)"

text \<open>
  \<^verbatim>\<open>send_commission_payment\<close> (lines 929-981). The memo multiplies the commission
  percentage by 100 and formats the fiat amount, which raises when either is
  \<^verbatim>\<open>None\<close>.
\<close>

definition send_commission_payment :: "env \<Rightarrow> lamassu_tx \<Rightarrow> int \<Rightarrow> state \<Rightarrow> bool \<times> state" where
  "send_commission_payment ev tx commission_sats s =
     (case get_active_lamassu_config ev s of
        Inl e \<Rightarrow> (False, s)
      | Inr None \<Rightarrow> (True, s)
      | Inr (Some admin_config) \<Rightarrow>
          (case commission_wallet_id admin_config of
             None \<Rightarrow> (True, s)
           | Some commission_wallet \<Rightarrow>
               (if commission_wallet = [] then (True, s)
                else case source_wallet_id admin_config of
                  None \<Rightarrow> (False, s)
                | Some source \<Rightarrow>
                    (if source = [] \<or> commission_percentage tx = None \<or> fiat_amount tx = None
                     then (False, s)
                     else case create_invoice ev commission_wallet commission_sats
                                 ''dca_commission'' (transaction_id tx) s of
                            Inl e \<Rightarrow> (False, s)
                          | Inr (None, s1) \<Rightarrow> (False, s1)
                          | Inr (Some bolt11, s1) \<Rightarrow>
                              (case pay_invoice ev bolt11 source s1 of
                                 Inl e \<Rightarrow> (False, s1)
                               | Inr s2 \<Rightarrow> (True, s2))))))"

text \<open>
  \<^verbatim>\<open>process_transaction\<close> (lines 983-1044) returns nothing; the outcome names the
  log line it ends with.
\<close>

datatype tx_outcome =
  AlreadyProcessed | CreditFailed | NoDistributions | Processed | ProcessingError py_error

text \<open>Lines 1013-1022: the commission amount, recomputed from the transaction.\<close>

definition commission_amount :: "lamassu_tx \<Rightarrow> py_error + int" where
  "commission_amount tx =
     (let commission = float_or_zero (commission_percentage tx);
          discnt = float_or_zero (discount tx)
      in if float_gt_zero commission then
           (case crypto_amount tx of
              None \<Rightarrow> Inl TypeError
            | Some crypto_atoms \<Rightarrow>
                py_bind (commission_breakdown commission discnt crypto_atoms)
                  (\<lambda>(effective, base, commission_sats). Inr commission_sats))
         else Inr 0)"

definition process_transaction :: "env \<Rightarrow> lamassu_tx \<Rightarrow> state \<Rightarrow> tx_outcome \<times> state" where
  "process_transaction ev tx s =
     (case get_payments_by_lamassu_transaction ev s (transaction_id tx) of
        Inl e \<Rightarrow> (ProcessingError e, s)
      | Inr existing_payments \<Rightarrow>
          (if existing_payments \<noteq> [] then (AlreadyProcessed, s)
           else case credit_source_wallet ev tx s of
             (False, s1) \<Rightarrow> (CreditFailed, s1)
           | (True, s1) \<Rightarrow>
               (case store_lamassu_transaction ev tx s1 of
                  (stored_transaction, s2) \<Rightarrow>
                    (let distributions = calculate_distribution_amounts ev s2 tx
                     in if distributions = [] then (NoDistributions, s2)
                        else case commission_amount tx of
                          Inl e \<Rightarrow> (ProcessingError e, s2)
                        | Inr commission_sats \<Rightarrow>
                            (let s3 = distribute_to_clients ev tx distributions s2;
                                 s4 = (if 0 < commission_sats
                                       then snd (send_commission_payment ev tx commission_sats s3)
                                       else s3)
                             in case stored_transaction of
                                  None \<Rightarrow> (Processed, s4)
                                | Some i \<Rightarrow>
                                    (case update_lamassu_transaction_distribution_stats ev i
                                            (length distributions)
                                            (sum_list (map (\<lambda>(cid, d). sats_amount d) distributions))
                                            s4 of
                                       Inl e \<Rightarrow> (ProcessingError e, s4)
                                     | Inr s5 \<Rightarrow> (Processed, s5)))))))"

text \<open>The loop of \<^verbatim>\<open>poll_and_process\<close> (lines 1069-1071).\<close>

fun process_all :: "env \<Rightarrow> lamassu_tx list \<Rightarrow> state \<Rightarrow> state" where
  "process_all ev [] s = s"
| "process_all ev (tx # rest) s = process_all ev rest (snd (process_transaction ev tx s))"

datatype poll_outcome = NoConfiguration | Completed nat | PollingError py_error

text \<open>\<^verbatim>\<open>poll_and_process\<close> (lines 1046-1079).\<close>

definition poll_and_process :: "env \<Rightarrow> state \<Rightarrow> poll_outcome \<times> state" where
  "poll_and_process ev s =
     (case connect_to_lamassu_db ev s of
        (None, s1) \<Rightarrow> (NoConfiguration, s1)
      | (Some db_config, s1) \<Rightarrow>
          (case update_poll_start_time ev (config_id db_config) s1 of
             Inl e \<Rightarrow> (PollingError e, s1)
           | Inr s2 \<Rightarrow>
               (let new_transactions = fetch_new_transactions ev s2 db_config;
                    s3 = process_all ev new_transactions s2
                in case update_poll_success_time ev (config_id db_config) s3 of
                     Inl e \<Rightarrow> (PollingError e, s3)
                   | Inr s4 \<Rightarrow> (Completed (length new_transactions), s4))))"

section \<open>Scenarios\<close>

text \<open>
  Concrete environments, states and transactions on which the theorems below are
  instantiated. In \<open>quiet_env\<close> no collaborator raises, the tunnel does not come up
  and the remote host answers nothing.
\<close>

definition quiet_env :: env where
  "quiet_env =
     \<lparr>raises = (\<lambda>c. False), now = 1000, remaining_balance = (\<lambda>s cid t. 0),
      ssh_available = True, tunnel_established = False, remote_probe = (\<lambda>q. []),
      remote_transactions = (\<lambda>t. []), invoice_declined = (\<lambda>w. False)\<rparr>"

definition success_write_fails_env :: env where
  "success_write_fails_env = quiet_env\<lparr>raises := (\<lambda>c. c = UpdatePollSuccess)\<rparr>"

definition config_unreadable_env :: env where
  "config_unreadable_env = quiet_env\<lparr>raises := (\<lambda>c. c = GetActiveConfig)\<rparr>"

definition pool_config :: lamassu_config where
  "pool_config =
     \<lparr>config_id = ''cfg'', use_ssh_tunnel = True, ssh_private_key = Some ''key'',
      source_wallet_id = Some ''pool'', commission_wallet_id = Some ''fees'',
      last_poll_time = Some 5, last_successful_poll = Some 5,
      test_connection_success = Some True\<rparr>"

definition start_state :: state where
  "start_state =
     \<lparr>config = Some pool_config, flow_clients = [],
      wallets = [(''pool'', 0), (''fees'', 0)], payments = [], lamassu_transactions = [],
      invoices = [], settled = []\<rparr>"

definition failed_probe_state :: state where
  "failed_probe_state =
     start_state\<lparr>config := Some (pool_config\<lparr>test_connection_success := Some False\<rparr>)\<rparr>"

definition sale :: lamassu_tx where
  "sale =
     \<lparr>transaction_id = ''tx1'', fiat_amount = Some 10, crypto_amount = Some 1500,
      transaction_time = Some 900, device_id = Some ''atm'', tx_status = Some ''confirmed'',
      commission_percentage = Some (Fin (1 / 2)), discount = Some (Fin 0),
      crypto_code = Some ''BTC'', fiat_code = Some ''GTQ''\<rparr>"

definition sale_without_amount :: lamassu_tx where
  "sale_without_amount = sale\<lparr>transaction_id := ''tx0'', crypto_amount := None\<rparr>"

definition earlier_payment :: dca_payment where
  "earlier_payment =
     \<lparr>payment_id = 0, payment_client_id = ''alice'', amount_sats = 1000, amount_fiat = 10,
      payment_exchange_rate = Fin 100, transaction_type = ''flow'',
      lamassu_transaction_id = Some ''tx1'', payment_status = ''confirmed'',
      payment_transaction_time = Some 900\<rparr>"

definition paid_state :: state where
  "paid_state = start_state\<lparr>payments := [earlier_payment]\<rparr>"

definition payout_env :: env where
  "payout_env =
     quiet_env\<lparr>raises := (\<lambda>c. c = CreateInvoice ''bob_wallet''),
               remaining_balance := (\<lambda>s cid t. if cid = ''carol'' then 2 else 1)\<rparr>"

text \<open>Two environments in which one collaborator raises: the write of the test
  result, and the read of one participant's balance.\<close>

definition flag_write_fails_env :: env where
  "flag_write_fails_env = quiet_env\<lparr>raises := (\<lambda>c. c = UpdateTestResult)\<rparr>"

definition balance_unreadable_env :: env where
  "balance_unreadable_env = payout_env\<lparr>raises := (\<lambda>c. c = GetBalance ''bob'')\<rparr>"

definition three_clients :: "dca_client list" where
  "three_clients =
     [\<lparr>client_id = ''alice'', client_wallet_id = ''alice_wallet''\<rparr>,
      \<lparr>client_id = ''bob'', client_wallet_id = ''bob_wallet''\<rparr>,
      \<lparr>client_id = ''carol'', client_wallet_id = ''carol_wallet''\<rparr>]"

text \<open>A pool with uneven balances, and a sale of 100,000 atomic units without
  commission.\<close>

definition uneven_env :: env where
  "uneven_env =
     quiet_env\<lparr>remaining_balance :=
                 (\<lambda>s cid t. if cid = ''alice'' then 29 else if cid = ''bob'' then 71 else 0)\<rparr>"

definition large_sale :: lamassu_tx where
  "large_sale =
     sale\<lparr>transaction_id := ''tx2'', fiat_amount := Some 1000, crypto_amount := Some 100000,
          commission_percentage := None, discount := None\<rparr>"

definition pool_state :: state where
  "pool_state =
     start_state
       \<lparr>flow_clients := three_clients,
        wallets := [(''pool'', 0), (''fees'', 0), (''alice_wallet'', 0), (''bob_wallet'', 0),
                    (''carol_wallet'', 0)]\<rparr>"


section \<open>Auxiliary notions\<close>

text \<open>
  Names for the parts of \<open>round_double\<close> on a positive argument: its exponent, the
  spacing of the doubles at that exponent, and the nearest multiple of the spacing.
\<close>

definition exponent :: "rat \<Rightarrow> int" where
  "exponent x = max (binary_exponent x) (- 1022)"

definition ulp :: "rat \<Rightarrow> rat" where
  "ulp a = 2 powi (max (binary_exponent a) (- 1022) - 52)"

definition nearest :: "rat \<Rightarrow> rat" where
  "nearest x = of_int (round_half_even (x / ulp x)) * ulp x"


text \<open>
  The decomposition as the specification words it, in exact arithmetic: the
  effective fraction \<open>c \<times> (100 - d) / 100\<close> (zero unless \<open>c\<close> is positive) and
  the base amount \<open>floor (T / (1 + f))\<close>.
\<close>

definition spec_effective_fraction :: "rat \<Rightarrow> rat \<Rightarrow> rat" where
  "spec_effective_fraction c d = (if 0 < c then c * (100 - d) / 100 else 0)"

definition spec_base :: "int \<Rightarrow> rat \<Rightarrow> int" where
  "spec_base T f = \<lfloor>of_int T / (1 + f)\<rfloor>"

text \<open>
  The positive remaining balances of the participants as of an instant, one for each
  participant of the list; their sum is what the first loop of the allocation
  accumulates.
\<close>

definition positive_balances :: "env \<Rightarrow> state \<Rightarrow> instant option \<Rightarrow> dca_client list \<Rightarrow> int list" where
  "positive_balances ev s t clients =
     filter (\<lambda>b. 0 < b) (map (\<lambda>c. remaining_balance ev s (client_id c) t) clients)"

text \<open>
  The share as the specification words it, in exact arithmetic: the proportion
  \<open>b / total\<close> and \<open>floor (base \<times> proportion)\<close>.
\<close>

definition spec_share :: "int \<Rightarrow> int \<Rightarrow> int \<Rightarrow> int" where
  "spec_share base b total_deposits = \<lfloor>of_int base * (of_int b / of_int total_deposits) :: rat\<rfloor>"


section \<open>Basic facts\<close>

lemma py_bind_Inl [simp]: "py_bind (Inl e) f = Inl e"
  by (simp add: py_bind_def)

lemma py_bind_Inr [simp]: "py_bind (Inr x) f = f x"
  by (simp add: py_bind_def)

lemma py_bind_fails:
  assumes "\<And>x. \<exists>e. f x = Inl e"
  shows "\<exists>e. py_bind m f = Inl e"
  using assms by (cases m) auto

lemma call_simps [simp]:
  "raises ev c \<Longrightarrow> call ev c r = Inl (CollaboratorError c)"
  "\<not> raises ev c \<Longrightarrow> call ev c r = Inr r"
  by (simp_all add: call_def)

section \<open>Rounding to double\<close>

lemma bitlen_floor_bounds:
  fixes y :: rat
  assumes "1 \<le> y"
  shows "2 powi (bitlen \<lfloor>y\<rfloor> - 1) \<le> y" and "y < 2 powi (bitlen \<lfloor>y\<rfloor>)"
    and "0 \<le> bitlen \<lfloor>y\<rfloor> - 1"
proof -
  let ?n = "\<lfloor>y\<rfloor>"
  have n: "0 < ?n" using assms by linarith
  from bitlen_bounds [OF n]
  have lo: "2 ^ nat (bitlen ?n - 1) \<le> ?n" and hi: "?n < 2 ^ nat (bitlen ?n)" by auto
  have pos: "1 \<le> bitlen ?n"
    using n by (auto simp: bitlen_alt_def)
  show "0 \<le> bitlen ?n - 1" using pos by simp
  have "(2::rat) powi (bitlen ?n - 1) = 2 ^ nat (bitlen ?n - 1)"
    using pos by (simp add: power_int_def)
  also have "\<dots> = of_int (2 ^ nat (bitlen ?n - 1))" by simp
  also have "\<dots> \<le> of_int ?n" using lo by (simp only: of_int_le_iff)
  also have "\<dots> \<le> y" by simp
  finally show "2 powi (bitlen ?n - 1) \<le> y" .
  have "?n + 1 \<le> 2 ^ nat (bitlen ?n)" using hi by simp
  then have "(of_int (?n + 1) :: rat) \<le> of_int (2 ^ nat (bitlen ?n))"
    by (simp only: of_int_le_iff)
  moreover have "y < of_int (?n + 1)" by linarith
  moreover have "(2::rat) powi (bitlen ?n) = of_int (2 ^ nat (bitlen ?n))"
    using pos by (simp add: power_int_def)
  ultimately show "y < 2 powi (bitlen ?n)" by simp
qed

lemma binary_exponent_bounds:
  assumes "0 < x"
  shows "2 powi (binary_exponent x) \<le> x \<and> x < 2 powi (binary_exponent x + 1)"
proof (cases "1 \<le> x")
  case True
  then show ?thesis
    using bitlen_floor_bounds(1,2) [OF True] by (simp add: binary_exponent_def)
next
  case False
  define y where "y = 1 / x"
  define k where "k = bitlen \<lfloor>y\<rfloor> - 1"
  have y1: "1 \<le> y" using False assms by (simp add: y_def)
  have x: "x = 1 / y" using assms by (simp add: y_def)
  have ypos: "0 < y" using y1 by linarith
  have lo: "2 powi k \<le> y" and hi: "y < 2 powi (k + 1)" and k0: "0 \<le> k"
    using bitlen_floor_bounds [OF y1] by (simp_all add: k_def)
  have xhi: "x \<le> 2 powi (- k)"
  proof -
    have "1 / y \<le> 1 / 2 powi k"
      using lo ypos by (intro divide_left_mono) auto
    then show ?thesis by (simp add: x power_int_minus_divide)
  qed
  have xlo: "2 powi (- k - 1) < x"
  proof -
    have "1 / 2 powi (k + 1) < 1 / y"
      using hi ypos by (intro divide_strict_left_mono) auto
    moreover have "- k - 1 = - (k + 1)" by simp
    then have "(2::rat) powi (- k - 1) = 1 / 2 powi (k + 1)"
      by (simp only: power_int_minus_divide)
    ultimately show ?thesis by (simp add: x)
  qed
  have be: "binary_exponent x = (if x = 2 powi (- k) then - k else - k - 1)"
    using False by (simp add: binary_exponent_def k_def y_def Let_def)
  show ?thesis
  proof (cases "x = 2 powi (- k)")
    case True
    then have "binary_exponent x = - k" using be by simp
    moreover have "(2::rat) powi (- k) < 2 powi (- k + 1)"
      by (intro power_int_strict_increasing) auto
    ultimately show ?thesis using True by simp
  next
    case False
    then have "binary_exponent x = - k - 1" using be by simp
    moreover have "x < 2 powi (- k)" using xhi False by simp
    ultimately show ?thesis using xlo by simp
  qed
qed

lemma round_half_even_bounds: "\<lfloor>x\<rfloor> \<le> round_half_even x \<and> round_half_even x \<le> \<lfloor>x\<rfloor> + 1"
  by (simp add: round_half_even_def Let_def)

lemma round_half_even_of_int [simp]: "round_half_even (of_int n) = n"
  by (simp add: round_half_even_def Let_def)

lemma round_half_even_error: "\<bar>of_int (round_half_even x) - x\<bar> \<le> 1 / 2"
proof -
  define n where "n = \<lfloor>x\<rfloor>"
  define r where "r = x - of_int n"
  have r: "0 \<le> r" "r < 1" unfolding r_def n_def by linarith+
  have x: "x = of_int n + r" by (simp add: r_def)
  have rhe: "round_half_even x =
      (if r < 1 / 2 then n else if 1 / 2 < r then n + 1 else if even n then n else n + 1)"
    by (simp add: round_half_even_def Let_def n_def r_def)
  have "round_half_even x = n \<and> r \<le> 1 / 2 \<or> round_half_even x = n + 1 \<and> 1 / 2 \<le> r"
    unfolding rhe by (cases "r < 1 / 2"; cases "1 / 2 < r") auto
  then show ?thesis
    using r by (auto simp: x)
qed

lemma round_half_even_mono:
  assumes "x \<le> y"
  shows "round_half_even x \<le> round_half_even y"
proof (cases "\<lfloor>x\<rfloor> = \<lfloor>y\<rfloor>")
  case True
  then show ?thesis
    using assms by (auto simp: round_half_even_def Let_def)
next
  case False
  then have "\<lfloor>x\<rfloor> < \<lfloor>y\<rfloor>"
    using assms floor_mono [of x y] by linarith
  then show ?thesis
    using round_half_even_bounds [of x] round_half_even_bounds [of y] by linarith
qed

lemma round_half_even_nonneg: "0 \<le> x \<Longrightarrow> 0 \<le> round_half_even x"
  using round_half_even_mono [of 0 x] round_half_even_of_int [of 0] by simp

lemma ulp_pos [simp]: "0 < ulp a"
  by (simp add: ulp_def)

lemma round_double_pos:
  assumes "0 < x"
  shows "round_double x =
           (if 2 powi 1024 \<le> of_int (round_half_even (x / ulp x)) * ulp x then PInf
            else Fin (of_int (round_half_even (x / ulp x)) * ulp x))"
  using assms by (simp add: round_double_def ulp_def Let_def)

lemma round_double_pos_nonneg:
  assumes "0 < x" and "round_double x = Fin r"
  shows "0 \<le> r"
proof -
  have "0 \<le> round_half_even (x / ulp x)"
    using assms(1) by (intro round_half_even_nonneg) (simp add: less_imp_le)
  then have "0 \<le> (of_int (round_half_even (x / ulp x)) :: rat) * ulp x"
    by (intro mult_nonneg_nonneg) (simp_all add: less_imp_le)
  then show ?thesis
    using assms by (simp add: round_double_pos split: if_splits)
qed

lemma round_double_pos_not_NInf: "0 < x \<Longrightarrow> round_double x \<noteq> NInf"
  by (simp add: round_double_pos)

lemma round_double_pos_not_NaN: "round_double x \<noteq> NaN"
  by (simp add: round_double_def Let_def)

lemma powi2_less_cancel:
  assumes "(2::rat) powi a < 2 powi b"
  shows "a < b"
proof (rule ccontr)
  assume "\<not> a < b"
  then have "b \<le> a" by simp
  then have "(2::rat) powi b \<le> 2 powi a"
    by (intro power_int_increasing) auto
  with assms show False by simp
qed

lemma round_double_exact:
  assumes n: "0 < n" "n < 2 ^ 53" and e: "- 1074 \<le> e"
    and x: "x = of_int n * 2 powi e" and fin: "x < 2 powi 1024"
  shows "round_double x = Fin x"
proof -
  have xpos: "0 < x" using n x by simp
  define E where "E = max (binary_exponent x) (- 1022)"
  have "2 powi (binary_exponent x) \<le> x"
    using binary_exponent_bounds [OF xpos] by simp
  also have "x < 2 ^ 53 * 2 powi e"
  proof -
    have "(of_int n :: rat) < of_int (2 ^ 53)" using n by (simp only: of_int_less_iff)
    then show ?thesis unfolding x by (intro mult_strict_right_mono) auto
  qed
  also have "\<dots> = (2::rat) powi (53 + e)"
    by (simp add: power_int_add)
  finally have "binary_exponent x < 53 + e" by (rule powi2_less_cancel)
  then have E: "E - 52 \<le> e" using e by (simp add: E_def)
  define k where "k = nat (e - (E - 52))"
  have "(2::rat) powi e = 2 powi (E - 52) * 2 powi (e - (E - 52))"
    by (simp add: power_int_add [symmetric])
  also have "(2::rat) powi (e - (E - 52)) = 2 ^ k"
    using E by (simp add: k_def power_int_def)
  finally have pe: "(2::rat) powi e = ulp x * 2 ^ k"
    by (simp add: ulp_def E_def)
  define u where "u = ulp x"
  have u: "0 < u" by (simp add: u_def)
  have xu: "x = of_int n * (u * 2 ^ k)"
    using x unfolding pe u_def .
  have "x / u = of_int (n * 2 ^ k)"
    using u by (subst xu) simp
  then have "of_int (round_half_even (x / u)) * u = of_int (n * 2 ^ k) * u"
    by (simp only: round_half_even_of_int)
  also have "\<dots> = x"
    by (subst xu) simp
  finally have "of_int (round_half_even (x / ulp x)) * ulp x = x"
    by (simp only: u_def)
  then show ?thesis
    using fin xpos by (simp add: round_double_pos)
qed

lemma round_double_of_int:
  assumes "0 \<le> n" "n < 2 ^ 53"
  shows "round_double (of_int n) = Fin (of_int n)"
proof (cases "n = 0")
  case True
  then show ?thesis by (simp add: round_double_def)
next
  case False
  have "(of_int n :: rat) < of_int (2 ^ 53)" using assms by (simp only: of_int_less_iff)
  also have "\<dots> < 2 powi 1024" by simp
  finally have "(of_int n :: rat) < 2 powi 1024" .
  then show ?thesis
    using assms False by (intro round_double_exact [where n = n and e = 0]) auto
qed

lemma round_double_dyadic:
  assumes "0 \<le> n" "n < 2 ^ 53" "k \<le> 1074"
  shows "round_double (of_int n / 2 ^ k) = Fin (of_int n / 2 ^ k)"
proof (cases "n = 0")
  case True
  then show ?thesis by (simp add: round_double_def)
next
  case False
  have "(of_int n :: rat) / 2 ^ k \<le> of_int n"
    using assms by (simp add: field_simps mult_le_cancel_left1)
  also have "(of_int n :: rat) < of_int (2 ^ 53)" using assms by (simp only: of_int_less_iff)
  also have "\<dots> < 2 powi 1024" by simp
  finally have fin: "(of_int n :: rat) / 2 ^ k < 2 powi 1024" .
  have "(of_int n :: rat) / 2 ^ k = of_int n * 2 powi (- int k)"
    by (simp add: power_int_minus field_simps)
  then show ?thesis
    using assms False fin
    by (intro round_double_exact [where n = n and e = "- int k"]) auto
qed


lemma ulp_nonzero [simp]: "ulp a \<noteq> 0"
  by (simp add: ulp_def)

lemma round_double_nearest:
  "0 < x \<Longrightarrow> round_double x = (if 2 powi 1024 \<le> nearest x then PInf else Fin (nearest x))"
  by (simp add: round_double_pos nearest_def)

lemma ulp_exponent: "ulp x = 2 powi (exponent x - 52)"
  by (simp add: ulp_def exponent_def)

lemma ulp_times: "ulp x * 2 ^ 52 = 2 powi (exponent x)" "ulp x * 2 ^ 53 = 2 powi (exponent x + 1)"
  by (simp_all add: ulp_exponent power_int_diff power_int_add)

lemma binary_exponent_mono:
  assumes "0 < x" "x \<le> y"
  shows "binary_exponent x \<le> binary_exponent y"
proof -
  have "2 powi (binary_exponent x) \<le> x"
    using binary_exponent_bounds [OF assms(1)] by simp
  also have "x \<le> y" by fact
  also have "y < 2 powi (binary_exponent y + 1)"
    using binary_exponent_bounds [of y] assms by simp
  finally have "binary_exponent x < binary_exponent y + 1" by (rule powi2_less_cancel)
  then show ?thesis by simp
qed

lemma exponent_mono: "0 < x \<Longrightarrow> x \<le> y \<Longrightarrow> exponent x \<le> exponent y"
  using binary_exponent_mono [of x y] by (simp add: exponent_def)

lemma nearest_upper:
  assumes "0 < x"
  shows "nearest x \<le> 2 powi (exponent x + 1)"
proof -
  have "x < 2 powi (binary_exponent x + 1)"
    using binary_exponent_bounds [OF assms] by simp
  also have "\<dots> \<le> 2 powi (exponent x + 1)"
    by (intro power_int_increasing) (auto simp: exponent_def)
  finally have "x < ulp x * 2 ^ 53" using ulp_times(2) [of x] by simp
  then have "x / ulp x \<le> of_int (2 ^ 53)"
    by (simp add: field_simps)
  then have "round_half_even (x / ulp x) \<le> round_half_even (of_int (2 ^ 53))"
    by (rule round_half_even_mono)
  then have "round_half_even (x / ulp x) \<le> 2 ^ 53"
    by (simp only: round_half_even_of_int)
  then have "(of_int (round_half_even (x / ulp x)) :: rat) \<le> of_int (2 ^ 53)"
    by (simp only: of_int_le_iff)
  then have "nearest x \<le> of_int (2 ^ 53) * ulp x"
    unfolding nearest_def by (intro mult_right_mono) (simp_all add: less_imp_le)
  then show ?thesis
    using ulp_times(2) [of x] by (simp add: mult.commute)
qed

lemma nearest_lower:
  assumes "0 < x" and "- 1022 \<le> binary_exponent x"
  shows "2 powi (exponent x) \<le> nearest x"
proof -
  have ex: "exponent x = binary_exponent x"
    using assms(2) by (simp add: exponent_def)
  have "2 powi (exponent x) \<le> x"
    using binary_exponent_bounds [OF assms(1)] by (simp add: ex)
  then have "ulp x * 2 ^ 52 \<le> x" using ulp_times(1) [of x] by simp
  then have "of_int (2 ^ 52) \<le> x / ulp x"
    by (simp add: field_simps)
  then have "round_half_even (of_int (2 ^ 52)) \<le> round_half_even (x / ulp x)"
    by (rule round_half_even_mono)
  then have "2 ^ 52 \<le> round_half_even (x / ulp x)"
    by (simp only: round_half_even_of_int)
  then have "(of_int (2 ^ 52) :: rat) \<le> of_int (round_half_even (x / ulp x))"
    by (simp only: of_int_le_iff)
  then have "of_int (2 ^ 52) * ulp x \<le> nearest x"
    unfolding nearest_def by (intro mult_right_mono) (simp_all add: less_imp_le)
  then show ?thesis
    using ulp_times(1) [of x] by (simp add: mult.commute)
qed

lemma nearest_mono:
  assumes "0 < x" "x \<le> y"
  shows "nearest x \<le> nearest y"
proof (cases "exponent x = exponent y")
  case True
  then have u: "ulp x = ulp y" by (simp add: ulp_exponent)
  have "x / ulp y \<le> y / ulp y"
    using assms by (intro divide_right_mono) (simp_all add: less_imp_le)
  then have "round_half_even (x / ulp y) \<le> round_half_even (y / ulp y)"
    by (rule round_half_even_mono)
  then have "(of_int (round_half_even (x / ulp y)) :: rat) \<le> of_int (round_half_even (y / ulp y))"
    by (simp only: of_int_le_iff)
  then show ?thesis
    unfolding nearest_def u by (intro mult_right_mono) (simp_all add: less_imp_le)
next
  case False
  then have lt: "exponent x < exponent y"
    using exponent_mono [OF assms] by simp
  have ypos: "0 < y" using assms by simp
  have "- 1022 \<le> exponent x" by (simp add: exponent_def)
  then have "- 1022 < exponent y" using lt by simp
  then have bey: "- 1022 \<le> binary_exponent y"
    by (simp add: exponent_def max_def split: if_splits)
  have "nearest x \<le> 2 powi (exponent x + 1)"
    using assms(1) by (rule nearest_upper)
  also have "\<dots> \<le> 2 powi (exponent y)"
    using lt by (intro power_int_increasing) auto
  also have "\<dots> \<le> nearest y"
    using ypos bey by (rule nearest_lower)
  finally show ?thesis .
qed

lemma round_double_mono:
  assumes "0 < x" "x \<le> y" "round_double x = Fin r" "round_double y = Fin r'"
  shows "r \<le> r'"
proof -
  have "0 < y" using assms by simp
  then have "r' = nearest y"
    using assms(4) by (simp add: round_double_nearest split: if_splits)
  moreover have "r = nearest x"
    using assms(1,3) by (simp add: round_double_nearest split: if_splits)
  ultimately show ?thesis
    using nearest_mono [OF assms(1,2)] by simp
qed

lemma round_double_finite:
  assumes "0 < x" "x < 2 powi 1023"
  shows "round_double x = Fin (nearest x)"
proof -
  have "2 powi (binary_exponent x) \<le> x"
    using binary_exponent_bounds [OF assms(1)] by simp
  also have "x < 2 powi 1023" by fact
  finally have "binary_exponent x < 1023" by (rule powi2_less_cancel)
  then have "exponent x + 1 \<le> 1023" by (simp add: exponent_def)
  then have "(2::rat) powi (exponent x + 1) \<le> 2 powi 1023"
    by (intro power_int_increasing) auto
  then have "nearest x \<le> 2 powi 1023"
    using nearest_upper [OF assms(1)] by simp
  also have "(2::rat) powi 1023 < 2 powi 1024"
    by (intro power_int_strict_increasing) auto
  finally show ?thesis
    using assms(1) by (simp add: round_double_nearest)
qed

lemma nearest_error:
  assumes "0 < x" and "2 powi (- 1022) \<le> x"
  shows "\<bar>nearest x - x\<bar> \<le> x / 2 ^ 53"
proof -
  have "(2::rat) powi (- 1022) \<le> x" by fact
  also have "x < 2 powi (binary_exponent x + 1)"
    using binary_exponent_bounds [OF assms(1)] by simp
  finally have "- 1022 < binary_exponent x + 1" by (rule powi2_less_cancel)
  then have ex: "exponent x = binary_exponent x" by (simp add: exponent_def)
  have le: "2 powi (exponent x) \<le> x"
    using binary_exponent_bounds [OF assms(1)] by (simp add: ex)
  have "\<bar>of_int (round_half_even (x / ulp x)) - x / ulp x\<bar> \<le> 1 / 2"
    by (rule round_half_even_error)
  then have "\<bar>of_int (round_half_even (x / ulp x)) - x / ulp x\<bar> * ulp x \<le> 1 / 2 * ulp x"
    by (intro mult_right_mono) (simp_all add: less_imp_le)
  moreover have "\<bar>of_int (round_half_even (x / ulp x)) - x / ulp x\<bar> * ulp x = \<bar>nearest x - x\<bar>"
  proof -
    have "\<bar>of_int (round_half_even (x / ulp x)) - x / ulp x\<bar> * ulp x
            = \<bar>(of_int (round_half_even (x / ulp x)) - x / ulp x) * ulp x\<bar>"
      by (simp add: abs_mult abs_of_pos)
    also have "(of_int (round_half_even (x / ulp x)) - x / ulp x) * ulp x = nearest x - x"
      by (simp add: nearest_def algebra_simps)
    finally show ?thesis .
  qed
  ultimately have "\<bar>nearest x - x\<bar> \<le> ulp x / 2" by simp
  also have "ulp x / 2 = 2 powi (exponent x) / 2 ^ 53"
    using ulp_times(1) [of x] by (simp add: field_simps)
  also have "\<dots> \<le> x / 2 ^ 53"
    using le by (intro divide_right_mono) simp_all
  finally show ?thesis .
qed

subsection \<open>Evaluating a rounding\<close>

lemma round_half_even_unique:
  assumes "\<bar>y - of_int m\<bar> < 1 / 2"
  shows "round_half_even y = m"
proof -
  define n where "n = \<lfloor>y\<rfloor>"
  define r where "r = y - of_int n"
  have r: "0 \<le> r" "r < 1" unfolding r_def n_def by linarith+
  have y: "y = of_int n + r" by (simp add: r_def)
  have rhe: "round_half_even y =
      (if r < 1 / 2 then n else if 1 / 2 < r then n + 1 else if even n then n else n + 1)"
    by (simp add: round_half_even_def Let_def n_def r_def)
  have "\<bar>of_int (n - m) + r\<bar> < 1 / 2"
    using assms by (simp add: y algebra_simps)
  then have "- 1 / 2 < of_int (n - m) + r" "of_int (n - m) + r < 1 / 2" by linarith+
  then have "(of_int (n - m) :: rat) < 1" "- 2 < (of_int (n - m) :: rat)"
    using r by linarith+
  then have "n - m < 1" "- 2 < n - m"
    by (simp_all only: of_int_less_iff [symmetric, where ?'a = rat] of_int_1 of_int_minus of_int_numeral)
  then have "m = n \<or> m = n + 1" by linarith
  then show ?thesis
  proof
    assume "m = n"
    then have "r < 1 / 2" using \<open>of_int (n - m) + r < 1 / 2\<close> by simp
    then show ?thesis using \<open>m = n\<close> by (simp add: rhe)
  next
    assume "m = n + 1"
    then have "1 / 2 < r" using \<open>- 1 / 2 < of_int (n - m) + r\<close> by simp
    then show ?thesis using \<open>m = n + 1\<close> by (simp add: rhe)
  qed
qed

lemma binary_exponent_unique:
  assumes "0 < x" "2 powi e \<le> x" "x < 2 powi (e + 1)"
  shows "binary_exponent x = e"
proof -
  have "2 powi (binary_exponent x) \<le> x" "x < 2 powi (binary_exponent x + 1)"
    using binary_exponent_bounds [OF assms(1)] by simp_all
  then have a: "(2::rat) powi (binary_exponent x) < 2 powi (e + 1)"
    and b: "(2::rat) powi e < 2 powi (binary_exponent x + 1)"
    using assms by linarith+
  have "binary_exponent x < e + 1" using a by (rule powi2_less_cancel)
  moreover have "e < binary_exponent x + 1" using b by (rule powi2_less_cancel)
  ultimately show ?thesis by simp
qed

lemma round_double_certificate:
  assumes "0 < x" "2 powi e \<le> x" "x < 2 powi (e + 1)" "- 1022 \<le> e" "e < 1023"
    and "\<bar>x / 2 powi (e - 52) - of_int m\<bar> < 1 / 2"
  shows "round_double x = Fin (of_int m * 2 powi (e - 52))"
proof -
  have be: "binary_exponent x = e"
    using assms(1-3) by (rule binary_exponent_unique)
  then have u: "ulp x = 2 powi (e - 52)"
    using assms(4) by (simp add: ulp_def)
  have "x < 2 powi (e + 1)" by fact
  also have "\<dots> \<le> 2 powi 1023"
    using assms(5) by (intro power_int_increasing) auto
  finally have "round_double x = Fin (nearest x)"
    using assms(1) by (intro round_double_finite)
  moreover have "round_half_even (x / ulp x) = m"
    using assms(6) unfolding u by (rule round_half_even_unique)
  ultimately show ?thesis
    by (simp add: nearest_def u)
qed


lemma floor_rat_numeral:
  "\<lfloor>numeral a / numeral b :: rat\<rfloor> = numeral a div numeral b"
  using floor_divide_of_int_eq [of "numeral a" "numeral b", where ?'a = rat] by simp


subsection \<open>Rounding a non-negative value\<close>

lemma round_double_zero [simp]: "round_double 0 = Fin 0"
  by (simp add: round_double_def)

lemma round_double_nonneg_cases:
  assumes "0 \<le> x"
  shows "(\<exists>r. round_double x = Fin r \<and> 0 \<le> r) \<or> round_double x = PInf"
proof (cases "x = 0")
  case True
  then show ?thesis by simp
next
  case False
  then have pos: "0 < x" using assms by simp
  show ?thesis
  proof (cases "round_double x")
    case (Fin r)
    then show ?thesis using round_double_pos_nonneg [OF pos Fin] by simp
  next
    case PInf
    then show ?thesis by simp
  next
    case NInf
    then show ?thesis using round_double_pos_not_NInf [OF pos] by simp
  next
    case NaN
    then show ?thesis using round_double_pos_not_NaN [of x] by simp
  qed
qed

lemma round_double_one [simp]: "round_double 1 = Fin 1"
  using round_double_of_int [of 1] by simp

lemma round_double_ge_one:
  assumes "1 \<le> x"
  shows "(\<exists>r. round_double x = Fin r \<and> 1 \<le> r) \<or> round_double x = PInf"
proof -
  have "0 \<le> x" using assms by simp
  from round_double_nonneg_cases [OF this] show ?thesis
  proof
    assume "\<exists>r. round_double x = Fin r \<and> 0 \<le> r"
    then obtain r where r: "round_double x = Fin r" by blast
    have "1 \<le> r"
      using round_double_mono [of 1 x 1 r] assms r by simp
    then show ?thesis using r by simp
  next
    assume "round_double x = PInf"
    then show ?thesis by simp
  qed
qed

lemma round_double_below_int:
  assumes "0 \<le> x" "x \<le> of_int n" "n < 2 ^ 53"
  shows "\<exists>r. round_double x = Fin r \<and> 0 \<le> r \<and> r \<le> of_int n"
proof (cases "x = 0")
  case True
  then show ?thesis using assms by simp
next
  case False
  then have pos: "0 < x" using assms by simp
  then have "(0::rat) < of_int n" using assms(2) by linarith
  then have npos: "0 \<le> n" by simp
  have n: "round_double (of_int n) = Fin (of_int n)"
    using npos assms(3) by (rule round_double_of_int)
  have "(of_int n :: rat) < of_int (2 ^ 53)" using assms(3) by (simp only: of_int_less_iff)
  also have "\<dots> < 2 powi 1023" by simp
  finally have "x < 2 powi 1023" using assms(2) by simp
  then have fin: "round_double x = Fin (nearest x)"
    using pos by (intro round_double_finite)
  have "nearest x \<le> of_int n"
    using round_double_mono [OF pos assms(2) fin n] .
  moreover have "0 \<le> nearest x"
    using round_double_pos_nonneg [OF pos fin] .
  ultimately show ?thesis using fin by simp
qed

lemma effective_commission_cases:
  assumes "0 < c" "0 \<le> d" "d \<le> 100"
  shows "(\<exists>f. float_div (float_mul (Fin c) (float_sub (Fin 100) (Fin d))) (Fin 100) = Inr (Fin f)
              \<and> 0 \<le> f)
       \<or> float_div (float_mul (Fin c) (float_sub (Fin 100) (Fin d))) (Fin 100) = Inr PInf"
proof -
  have "\<exists>r. round_double (100 - d) = Fin r \<and> 0 \<le> r \<and> r \<le> of_int 100"
    using assms by (intro round_double_below_int) simp_all
  then obtain a where a: "float_sub (Fin 100) (Fin d) = Fin a" "0 \<le> a"
    by (auto simp: float_sub_def)
  have "0 \<le> c * a" using assms(1) a(2) by simp
  from round_double_nonneg_cases [OF this] show ?thesis
  proof
    assume "\<exists>r. round_double (c * a) = Fin r \<and> 0 \<le> r"
    then obtain b where b: "round_double (c * a) = Fin b" "0 \<le> b" by blast
    have "0 \<le> b / 100" using b(2) by simp
    from round_double_nonneg_cases [OF this] show ?thesis
      by (auto simp: a b)
  next
    assume "round_double (c * a) = PInf"
    then show ?thesis by (simp add: a signed_inf_def)
  qed
qed

lemma quotient_by_one_plus:
  assumes "0 \<le> T" "T < 2 ^ 53" "f = PInf \<or> (\<exists>f'. f = Fin f' \<and> 0 \<le> f')"
  shows "\<exists>q. float_div (Fin (of_int T)) (float_add (Fin 1) f) = Inr (Fin q)
             \<and> 0 \<le> q \<and> q \<le> of_int T"
proof -
  have "float_add (Fin 1) f = PInf \<or> (\<exists>s. float_add (Fin 1) f = Fin s \<and> 1 \<le> s)"
    using assms(3)
  proof
    assume "f = PInf"
    then show ?thesis by simp
  next
    assume "\<exists>f'. f = Fin f' \<and> 0 \<le> f'"
    then obtain f' where f': "f = Fin f'" "0 \<le> f'" by blast
    then have "1 \<le> 1 + f'" by simp
    from round_double_ge_one [OF this] show ?thesis
      by (auto simp: f')
  qed
  then show ?thesis
  proof
    assume "float_add (Fin 1) f = PInf"
    then show ?thesis using assms(1) by simp
  next
    assume "\<exists>s. float_add (Fin 1) f = Fin s \<and> 1 \<le> s"
    then obtain s where s: "float_add (Fin 1) f = Fin s" "1 \<le> s" by blast
    have "0 \<le> (of_int T :: rat) / s" using assms(1) s(2) by simp
    moreover have "(of_int T :: rat) / s \<le> of_int T"
      using assms(1) s(2) by (simp add: divide_le_eq mult_le_cancel_left1)
    ultimately have "\<exists>r. round_double (of_int T / s) = Fin r \<and> 0 \<le> r \<and> r \<le> of_int T"
      using assms(2) by (intro round_double_below_int)
    then show ?thesis
      using s by auto
  qed
qed


section \<open>Name errors and frames\<close>

subsection \<open>The unbound name\<close>

lemma transaction_time_not_global: "''transaction_time'' \<notin> set module_globals"
  by (simp add: module_globals_def)

lemma load_transaction_time_store:
  "load_name (store_bindings tx c d ef b cs er) ''transaction_time''
     = Inl (NameError ''transaction_time'')"
  by (simp add: load_name_def store_bindings_def transaction_time_not_global)

lemma load_transaction_time_distribute:
  "load_name (distribute_bindings tid cid) ''transaction_time''
     = Inl (NameError ''transaction_time'')"
  by (simp add: load_name_def distribute_bindings_def transaction_time_not_global)

lemma store_body_raises: "\<exists>e. store_body ev tx s = Inl e"
proof -
  have last: "\<exists>e. py_bind (load_name (store_bindings tx c d ef b cs er) ''transaction_time'') f
                = Inl e"
    for c d ef b cs er and f :: "pyval \<Rightarrow> py_error + (nat \<times> state)"
    by (simp add: load_transaction_time_store)
  show ?thesis
    unfolding store_body_def Let_def
    by (rule py_bind_fails, clarify, rule py_bind_fails, rule last)
qed

lemma store_unchanged: "store_lamassu_transaction ev tx s = (None, s)"
  using store_body_raises [of ev tx s] by (auto simp: store_lamassu_transaction_def)

lemma distribute_one_unchanged: "distribute_one ev tx cid d s = s"
  by (simp add: distribute_one_def load_transaction_time_distribute
           split: sum.splits option.splits)

lemma distribute_unchanged: "distribute_to_clients ev tx ds s = s"
  by (induction ds arbitrary: s) (auto simp: distribute_one_unchanged)

subsection \<open>What a transaction's processing can change\<close>

lemma credit_failure_unchanged:
  "fst (credit_source_wallet ev tx s) = False \<Longrightarrow> snd (credit_source_wallet ev tx s) = s"
  by (auto simp: credit_source_wallet_def split: sum.splits option.splits if_splits)

lemma credit_config: "config (snd (credit_source_wallet ev tx s)) = config s"
  by (auto simp: credit_source_wallet_def update_wallet_balance_def call_def
           split: sum.splits option.splits if_splits)

lemma credit_payments: "payments (snd (credit_source_wallet ev tx s)) = payments s"
  by (auto simp: credit_source_wallet_def update_wallet_balance_def call_def
           split: sum.splits option.splits if_splits)

lemma commission_payment_config:
  "config (snd (send_commission_payment ev tx n s)) = config s"
  by (auto simp: send_commission_payment_def create_invoice_def pay_invoice_def call_def
           split: sum.splits option.splits if_splits prod.splits)

lemma commission_payment_payments:
  "payments (snd (send_commission_payment ev tx n s)) = payments s"
  by (auto simp: send_commission_payment_def create_invoice_def pay_invoice_def call_def
           split: sum.splits option.splits if_splits prod.splits)

lemma process_transaction_state:
  "snd (process_transaction ev tx s) = s
   \<or> snd (process_transaction ev tx s) = snd (credit_source_wallet ev tx s)
   \<or> (\<exists>n. snd (process_transaction ev tx s) =
          snd (send_commission_payment ev tx n (snd (credit_source_wallet ev tx s))))"
  by (auto simp: process_transaction_def store_unchanged distribute_unchanged Let_def
           split: sum.splits option.splits if_splits prod.splits bool.splits)

lemma process_transaction_config: "config (snd (process_transaction ev tx s)) = config s"
  using process_transaction_state [of ev tx s]
  by (auto simp: credit_config commission_payment_config)

lemma process_transaction_payments: "payments (snd (process_transaction ev tx s)) = payments s"
  using process_transaction_state [of ev tx s]
  by (auto simp: credit_payments commission_payment_payments)

lemma process_all_config: "config (process_all ev txs s) = config s"
  by (induction txs arbitrary: s) (auto simp: process_transaction_config)

lemma get_db_config_Some:
  "get_db_config ev s = Some c \<longleftrightarrow> config s = Some c \<and> \<not> raises ev GetActiveConfig"
  by (auto simp: get_db_config_def get_active_lamassu_config_def call_def split: option.splits)

lemma connect_result:
  assumes "get_db_config ev s = Some c"
  shows "connect_to_lamassu_db ev s =
           (Some c, if raises ev UpdateTestResult then s
                    else s\<lparr>config := Some (c\<lparr>test_connection_success := Some True\<rparr>)\<rparr>)"
proof -
  have "config s = Some c"
    using assms by (simp add: get_db_config_Some)
  then show ?thesis
    by (simp add: connect_to_lamassu_db_def assms update_config_test_result_def call_def)
qed

subsection \<open>The amounts of the sale scenario\<close>

lemma exact_doubles:
  "round_double 100 = Fin 100" "round_double 50 = Fin 50" "round_double (1 / 2) = Fin (1 / 2)"
  "round_double 1500 = Fin 1500" "round_double (3 / 2) = Fin (3 / 2)"
  "round_double 1000 = Fin 1000" "round_double (1 / 4) = Fin (1 / 4)"
  "round_double 250 = Fin 250" "round_double (5 / 2) = Fin (5 / 2)"
  "round_double 500 = Fin 500" "round_double 5 = Fin 5"
  using round_double_of_int [of 100] round_double_of_int [of 50] round_double_dyadic [of 1 1]
    round_double_of_int [of 1500] round_double_dyadic [of 3 1] round_double_of_int [of 1000]
    round_double_dyadic [of 1 2] round_double_of_int [of 250] round_double_dyadic [of 5 1]
    round_double_of_int [of 500] round_double_of_int [of 5]
  by simp_all

lemma sale_breakdown:
  "commission_breakdown (Fin (1 / 2)) (Fin 0) 1500 = Inr (Fin (1 / 2), 1000, 500)"
  by (simp add: commission_breakdown_def float_sub_def float_of_int_def exact_doubles
        toward_zero_def)

section \<open>Idempotency gate\<close>

text \<open>
  Claim C1, as the code has it. When the lookup of payments linked to the
  transaction identifier returns at least one, \<^verbatim>\<open>process_transaction\<close> ends as a
  skip and leaves the state as it was; and a second invocation is such a skip
  whenever the first one left a payment linked to the identifier.
\<close>

theorem already_processed_is_skipped:
  "(get_payments_by_lamassu_transaction ev s (transaction_id tx) = Inr ps \<and> ps \<noteq> []
      \<longrightarrow> process_transaction ev tx s = (AlreadyProcessed, s))
   \<and> (get_payments_by_lamassu_transaction ev (snd (process_transaction ev tx s))
         (transaction_id tx) = Inr ps \<and> ps \<noteq> []
      \<longrightarrow> process_transaction ev tx (snd (process_transaction ev tx s))
          = (AlreadyProcessed, snd (process_transaction ev tx s)))"
  by (simp add: process_transaction_def)

theorem already_processed_is_skipped_witness:
  "get_payments_by_lamassu_transaction quiet_env paid_state (transaction_id sale)
     = Inr [earlier_payment]
   \<and> process_transaction quiet_env sale paid_state = (AlreadyProcessed, paid_state)
   \<and> process_transaction quiet_env sale (snd (process_transaction quiet_env sale paid_state))
       = (AlreadyProcessed, paid_state)"
proof -
  have linked: "get_payments_by_lamassu_transaction quiet_env paid_state (transaction_id sale)
                  = Inr [earlier_payment]"
    by (simp add: get_payments_by_lamassu_transaction_def quiet_env_def paid_state_def
          start_state_def earlier_payment_def sale_def)
  have first: "process_transaction quiet_env sale paid_state = (AlreadyProcessed, paid_state)"
    using already_processed_is_skipped [of quiet_env paid_state sale "[earlier_payment]"] linked
    by simp
  show ?thesis
    using linked first by simp
qed

text \<open>
  The claim as stated fails where the first run leaves no payment: with no eligible
  participant the pooled account is credited, nothing is linked to the identifier,
  and a second run credits the account again.
\<close>

theorem second_run_credits_again:
  "fst (process_transaction quiet_env sale start_state) = NoDistributions
   \<and> payments (snd (process_transaction quiet_env sale start_state)) = []
   \<and> wallets (snd (process_transaction quiet_env sale start_state))
       = [(''pool'', 1500), (''fees'', 0)]
   \<and> wallets (snd (process_transaction quiet_env sale
                 (snd (process_transaction quiet_env sale start_state))))
       = [(''pool'', 3000), (''fees'', 0)]"
  by (simp add: process_transaction_def get_payments_by_lamassu_transaction_def
        credit_source_wallet_def get_active_lamassu_config_def get_wallet_def
        update_wallet_balance_def store_unchanged calculate_distribution_amounts_def
        distribution_body_def get_flow_mode_clients_def
        quiet_env_def start_state_def pool_config_def sale_def)

section \<open>Watermarks\<close>

text \<open>
  Claim C4, as the code has it. A cycle that retrieves no configuration changes
  nothing. In a cycle that retrieves the configuration and whose write of the attempt
  watermark does not raise, the attempt watermark is the current instant whatever
  happens afterwards; the success watermark changes only in a cycle that completes,
  and a cycle that completes sets it to the current instant.
\<close>

theorem watermarks_after_configuration:
  "(get_db_config ev s = None \<longrightarrow> poll_and_process ev s = (NoConfiguration, s))
   \<and> (get_db_config ev s = Some c \<and> \<not> raises ev UpdatePollStart \<longrightarrow>
        map_option last_poll_time (config (snd (poll_and_process ev s))) = Some (Some (now ev))
        \<and> (map_option last_successful_poll (config (snd (poll_and_process ev s)))
              \<noteq> Some (last_successful_poll c)
            \<longrightarrow> (\<exists>n. fst (poll_and_process ev s) = Completed n))
        \<and> ((\<exists>n. fst (poll_and_process ev s) = Completed n)
            \<longrightarrow> map_option last_successful_poll (config (snd (poll_and_process ev s)))
                = Some (Some (now ev))))"
proof (intro conjI impI)
  assume "get_db_config ev s = None"
  then show "poll_and_process ev s = (NoConfiguration, s)"
    by (simp add: poll_and_process_def connect_to_lamassu_db_def)
next
  assume a: "get_db_config ev s = Some c \<and> \<not> raises ev UpdatePollStart"
  then have connect: "connect_to_lamassu_db ev s =
           (Some c, if raises ev UpdateTestResult then s
                    else s\<lparr>config := Some (c\<lparr>test_connection_success := Some True\<rparr>)\<rparr>)"
    by (simp add: connect_result)
  have cfg: "config s = Some c"
    using a by (simp add: get_db_config_Some)
  show "map_option last_poll_time (config (snd (poll_and_process ev s))) = Some (Some (now ev))"
    using a cfg
    by (auto simp: poll_and_process_def connect update_poll_start_time_def
          update_poll_success_time_def call_def Let_def process_all_config split: sum.splits)
  show "\<exists>n. fst (poll_and_process ev s) = Completed n"
    if "map_option last_successful_poll (config (snd (poll_and_process ev s)))
          \<noteq> Some (last_successful_poll c)"
    using a cfg that
    by (auto simp: poll_and_process_def connect update_poll_start_time_def
          update_poll_success_time_def call_def Let_def process_all_config
          split: sum.splits if_splits)
  show "map_option last_successful_poll (config (snd (poll_and_process ev s)))
          = Some (Some (now ev))"
    if "\<exists>n. fst (poll_and_process ev s) = Completed n"
    using a cfg that
    by (auto simp: poll_and_process_def connect update_poll_start_time_def
          update_poll_success_time_def call_def Let_def process_all_config
          split: sum.splits if_splits)
qed

lemma poll_success_write_fails:
  "poll_and_process success_write_fails_env start_state
     = (PollingError (CollaboratorError UpdatePollSuccess),
        start_state\<lparr>config := Some (pool_config\<lparr>test_connection_success := Some True,
                                                   last_poll_time := Some 1000\<rparr>)\<rparr>)"
  by (simp add: poll_and_process_def connect_to_lamassu_db_def get_db_config_def
        get_active_lamassu_config_def update_config_test_result_def update_poll_start_time_def
        update_poll_success_time_def fetch_new_transactions_def get_all_payments_def
        execute_ssh_query_def call_def Let_def
        success_write_fails_env_def quiet_env_def start_state_def pool_config_def)

theorem watermarks_after_configuration_witness:
  "get_db_config success_write_fails_env start_state = Some pool_config
   \<and> \<not> raises success_write_fails_env UpdatePollStart
   \<and> last_poll_time pool_config = Some 5
   \<and> map_option last_poll_time (config (snd (poll_and_process success_write_fails_env start_state)))
       = Some (Some (now success_write_fails_env))
   \<and> fst (poll_and_process success_write_fails_env start_state)
       = PollingError (CollaboratorError UpdatePollSuccess)
   \<and> map_option last_successful_poll
         (config (snd (poll_and_process success_write_fails_env start_state)))
       = Some (last_successful_poll pool_config)"
proof -
  have h: "get_db_config success_write_fails_env start_state = Some pool_config
           \<and> \<not> raises success_write_fails_env UpdatePollStart"
    by (simp add: get_db_config_Some success_write_fails_env_def quiet_env_def start_state_def)
  from watermarks_after_configuration [of success_write_fails_env start_state pool_config] h
  have "map_option last_poll_time
          (config (snd (poll_and_process success_write_fails_env start_state)))
        = Some (Some (now success_write_fails_env))"
    by blast
  then show ?thesis
    using h by (simp add: poll_success_write_fails pool_config_def)
qed

text \<open>
  The attempt watermark is not written unconditionally: a cycle whose configuration
  read raises returns before the write, and the stored watermark keeps its old value.
\<close>

theorem unreadable_configuration_skips_attempt_watermark:
  "config start_state = Some pool_config
   \<and> last_poll_time pool_config = Some 5
   \<and> now config_unreadable_env = 1000
   \<and> poll_and_process config_unreadable_env start_state = (NoConfiguration, start_state)
   \<and> map_option last_poll_time (config (snd (poll_and_process config_unreadable_env start_state)))
       \<noteq> Some (Some (now config_unreadable_env))"
  by (simp add: poll_and_process_def connect_to_lamassu_db_def get_db_config_def
        get_active_lamassu_config_def call_def
        config_unreadable_env_def quiet_env_def start_state_def pool_config_def)

section \<open>Decomposition\<close>

lemma round_double_100: "round_double 100 = Fin 100"
  using round_double_of_int [of 100] by simp

lemma round_double_139100: "round_double 139100 = Fin 139100"
  using round_double_of_int [of 139100] by simp


lemma double_7_100: "round_double (7 / 100) = Fin (1261007895663739 / 18014398509481984)"
  using round_double_certificate [of "(7 / 100)" "- 4" "5044031582654956"] by simp

lemma double_c07_times_100: "round_double (31525197391593475 / 4503599627370496) = Fin (7881299347898369 / 1125899906842624)"
  using round_double_certificate [of "(31525197391593475 / 4503599627370496)" "2" "7881299347898369"] by simp

lemma double_c07_effective: "round_double (7881299347898369 / 112589990684262400) = Fin (1261007895663739 / 18014398509481984)"
  using round_double_certificate [of "(7881299347898369 / 112589990684262400)" "- 4" "5044031582654956"] by simp

lemma double_c07_one_plus: "round_double (19275406405145723 / 18014398509481984) = Fin (4818851601286431 / 4503599627370496)"
  using round_double_certificate [of "(19275406405145723 / 18014398509481984)" "0" "4818851601286431"] by simp

lemma double_c07_quotient: "round_double (626450708167235993600 / 4818851601286431) = Fin (8933531975679999 / 68719476736)"
  using round_double_certificate [of "(626450708167235993600 / 4818851601286431)" "16" "8933531975679999"] by simp

lemma double_c05: "round_double (1 / 20) = Fin (3602879701896397 / 72057594037927936)"
  using round_double_certificate [of "(1 / 20)" "- 5" "7205759403792794"] by simp

lemma double_c05_times_100: "round_double (90071992547409925 / 18014398509481984) = Fin 5"
  using round_double_certificate [of "(90071992547409925 / 18014398509481984)" "2" "5629499534213120"] by simp

lemma double_c05_one_plus: "round_double (75660473739824333 / 72057594037927936) = Fin (4728779608739021 / 4503599627370496)"
  using round_double_certificate [of "(75660473739824333 / 72057594037927936)" "0" "4728779608739021"] by simp

lemma double_c05_quotient: "round_double (472877960873902080000 / 4728779608739021) = Fin 100000"
  using round_double_certificate [of "(472877960873902080000 / 4728779608739021)" "16" "6871947673600000"] by simp

lemma round_double_105000: "round_double 105000 = Fin 105000"
  using round_double_of_int [of 105000] by simp

text \<open>
  The scenario of the specification: a total of 105,000 atomic units at a commission
  of 0.05 with no discount gives a base of 100,000 and a commission of 5,000.
\<close>

lemma scenario_105000:
  "commission_breakdown (Fin (3602879701896397 / 72057594037927936)) (Fin 0) 105000
     = Inr (Fin (3602879701896397 / 72057594037927936), 100000, 5000)"
  by (simp add: commission_breakdown_def float_sub_def float_of_int_def
        round_double_100 round_double_105000 double_c05 double_c05_times_100
        double_c05_one_plus double_c05_quotient toward_zero_def)

text \<open>
  Claim C2, as the code has it. For a total \<open>0 \<le> T < 2 ^ 53\<close> and a discount between 0
  and 100: when the commission percentage is not positive the effective fraction is 0,
  the base is \<open>T\<close> and the commission is 0; when it is positive, the effective
  fraction \<open>f\<close> is \<open>c \<times> (100 - d) / 100\<close> computed in double precision, the base
  is the double-precision quotient \<open>T / (1 + f)\<close> rounded down, the commission is
  \<open>T\<close> minus the base, and \<open>0 \<le> base \<le> T\<close>. The exchange rate is the double
  nearest to \<open>base / fiat\<close> when the fiat amount is positive, and 0 otherwise.
\<close>

theorem commission_breakdown_in_double_arithmetic:
  assumes "0 \<le> T" "T < 2 ^ 53" "0 \<le> d" "d \<le> 100"
  shows "(c \<le> 0 \<longrightarrow> commission_breakdown (Fin c) (Fin d) T = Inr (Fin 0, T, 0))
       \<and> (0 < c \<longrightarrow>
            (\<exists>f q. float_div (float_mul (Fin c) (float_sub (Fin 100) (Fin d))) (Fin 100) = Inr f
                 \<and> float_div (Fin (of_int T)) (float_add (Fin 1) f) = Inr (Fin q)
                 \<and> commission_breakdown (Fin c) (Fin d) T = Inr (f, \<lfloor>q\<rfloor>, T - \<lfloor>q\<rfloor>)
                 \<and> 0 \<le> \<lfloor>q\<rfloor> \<and> \<lfloor>q\<rfloor> \<le> T))
       \<and> (0 < fiat \<and> 0 \<le> base \<and> base < 2 ^ 53 \<longrightarrow>
            (\<exists>r. exchange_rate_of base fiat = Inr (Fin r)
                \<and> round_double (of_int base / of_int fiat) = Fin r \<and> 0 \<le> r))
       \<and> (fiat \<le> 0 \<longrightarrow> exchange_rate_of base fiat = Inr (Fin 0))"
proof (intro conjI impI)
  assume "c \<le> 0"
  then show "commission_breakdown (Fin c) (Fin d) T = Inr (Fin 0, T, 0)"
    by (simp add: commission_breakdown_def)
next
  assume c: "0 < c"
  from effective_commission_cases [OF c assms(3,4)]
  obtain f where f: "float_div (float_mul (Fin c) (float_sub (Fin 100) (Fin d))) (Fin 100) = Inr f"
    and fcases: "f = PInf \<or> (\<exists>f'. f = Fin f' \<and> 0 \<le> f')"
    by blast
  from quotient_by_one_plus [OF assms(1,2) fcases]
  obtain q where q: "float_div (Fin (of_int T)) (float_add (Fin 1) f) = Inr (Fin q)"
    and q0: "0 \<le> q" and qT: "q \<le> of_int T"
    by blast
  have conv: "float_of_int T = Inr (Fin (of_int T))"
    using round_double_of_int [OF assms(1,2)] by (simp add: float_of_int_def)
  have tz: "toward_zero q = \<lfloor>q\<rfloor>"
    using q0 by (simp add: toward_zero_def)
  have "commission_breakdown (Fin c) (Fin d) T = Inr (f, \<lfloor>q\<rfloor>, T - \<lfloor>q\<rfloor>)"
    unfolding commission_breakdown_def
    by (simp only: float_gt_zero.simps c if_True f py_bind_Inr conv q py_int.simps tz)
  moreover have "0 \<le> \<lfloor>q\<rfloor>" using q0 by simp
  moreover have "\<lfloor>q\<rfloor> \<le> T" using qT by (simp add: floor_le_iff)
  ultimately show "\<exists>f q. float_div (float_mul (Fin c) (float_sub (Fin 100) (Fin d))) (Fin 100) = Inr f
                 \<and> float_div (Fin (of_int T)) (float_add (Fin 1) f) = Inr (Fin q)
                 \<and> commission_breakdown (Fin c) (Fin d) T = Inr (f, \<lfloor>q\<rfloor>, T - \<lfloor>q\<rfloor>)
                 \<and> 0 \<le> \<lfloor>q\<rfloor> \<and> \<lfloor>q\<rfloor> \<le> T"
    using f q by blast
next
  assume a: "0 < fiat \<and> 0 \<le> base \<and> base < 2 ^ 53"
  then have "0 \<le> (of_int base :: rat) / of_int fiat" by simp
  moreover have "(of_int base :: rat) / of_int fiat \<le> of_int base"
  proof -
    have "(1::rat) \<le> of_int fiat" using a by linarith
    then show ?thesis
      using a by (simp add: divide_le_eq mult_le_cancel_left1)
  qed
  ultimately have "\<exists>r. round_double (of_int base / of_int fiat) = Fin r \<and> 0 \<le> r \<and> r \<le> of_int base"
    using a by (intro round_double_below_int) simp_all
  then show "\<exists>r. exchange_rate_of base fiat = Inr (Fin r)
                \<and> round_double (of_int base / of_int fiat) = Fin r \<and> 0 \<le> r"
    using a by (auto simp: exchange_rate_of_def int_truediv_def)
next
  assume "fiat \<le> 0"
  then show "exchange_rate_of base fiat = Inr (Fin 0)"
    by (simp add: exchange_rate_of_def)
qed

theorem commission_breakdown_in_double_arithmetic_witness:
  "(0::int) \<le> 105000 \<and> (105000::int) < 2 ^ 53
   \<and> round_double (1 / 20) = Fin (3602879701896397 / 72057594037927936)
   \<and> commission_breakdown (Fin (3602879701896397 / 72057594037927936)) (Fin 0) 105000
       = Inr (Fin (3602879701896397 / 72057594037927936), 100000, 5000)
   \<and> exchange_rate_of 100000 1000 = Inr (Fin 100)"
proof -
  have range: "(0::int) \<le> 105000" "(105000::int) < 2 ^ 53" "(0::rat) \<le> 0" "(0::rat) \<le> 100"
    by simp_all
  from commission_breakdown_in_double_arithmetic
         [OF range, of "3602879701896397 / 72057594037927936" 1000 100000]
  have "\<exists>r. exchange_rate_of 100000 1000 = Inr (Fin r)
            \<and> round_double (of_int 100000 / of_int 1000) = Fin r \<and> 0 \<le> r"
    by simp
  then have "exchange_rate_of 100000 1000 = Inr (Fin 100)"
    by (auto simp: round_double_100)
  then show ?thesis
    using range by (simp add: double_c05 scenario_105000)
qed

text \<open>
  The claim as stated fails in exact arithmetic. The ledger's commission 0.07 reaches
  the code as the double nearest to it; for a total of 139,100 the code's base is
  129,999 and its commission 9,101, where \<open>floor (T / (1 + f))\<close> is 130,000.
\<close>

theorem base_is_not_the_exact_floor:
  "commission_breakdown (round_double (7 / 100)) (round_double 0) 139100
     = Inr (Fin (1261007895663739 / 18014398509481984), 129999, 9101)
   \<and> spec_effective_fraction (7 / 100) 0 = 7 / 100
   \<and> spec_base 139100 (spec_effective_fraction (7 / 100) 0) = 130000"
proof -
  have "round_double 0 = Fin 0" by (simp add: round_double_def)
  then have "commission_breakdown (round_double (7 / 100)) (round_double 0) 139100
     = Inr (Fin (1261007895663739 / 18014398509481984), 129999, 9101)"
    by (simp add: double_7_100 commission_breakdown_def float_sub_def float_of_int_def
          round_double_100 round_double_139100 double_c07_times_100 double_c07_effective
          double_c07_one_plus double_c07_quotient toward_zero_def floor_rat_numeral)
  moreover have "spec_base 139100 (spec_effective_fraction (7 / 100) 0) = 130000"
    by (simp add: spec_base_def spec_effective_fraction_def)
  ultimately show ?thesis
    by (simp add: spec_effective_fraction_def)
qed

section \<open>Allocation\<close>

subsection \<open>Rounding a proportion and a share\<close>

text \<open>
  A proportion \<open>b / total\<close> with \<open>0 < b \<le> total\<close> and a product of the base
  amount with it stay in the normal range of the doubles, where the rounding error is
  at most one part in \<open>2 ^ 53\<close>.
\<close>

lemma nearest_bounds:
  assumes "0 < x" "2 powi (- 1022) \<le> x"
  shows "nearest x \<le> x + x / 2 ^ 53" and "x - x / 2 ^ 53 \<le> nearest x"
proof -
  have a: "\<bar>nearest x - x\<bar> \<le> x / 2 ^ 53"
    using assms by (rule nearest_error)
  have "nearest x - x \<le> x / 2 ^ 53" using a by (rule abs_le_D1)
  then show "nearest x \<le> x + x / 2 ^ 53" by linarith
  have "- (nearest x - x) \<le> x / 2 ^ 53" using a by (rule abs_le_D2)
  then show "x - x / 2 ^ 53 \<le> nearest x" by linarith
qed

lemma nearest_zero [simp]: "nearest 0 = 0"
  by (simp add: nearest_def round_half_even_of_int [of 0, simplified])

lemma toward_zero_nonneg: "0 \<le> v \<Longrightarrow> toward_zero v = \<lfloor>v\<rfloor>"
  by (simp add: toward_zero_def)

lemma float_of_int_exact:
  "0 \<le> n \<Longrightarrow> n < 2 ^ 53 \<Longrightarrow> float_of_int n = Inr (Fin (of_int n))"
  by (simp add: float_of_int_def round_double_of_int)

lemma int_truediv_Fin:
  assumes "int_truediv a b = Inr p"
  shows "\<exists>p'. p = Fin p'"
proof (cases "round_double (of_int a / of_int b)")
  case (Fin r)
  then have "p = Fin r"
    using assms by (simp add: int_truediv_def split: if_splits)
  then show ?thesis by blast
next
  case PInf
  then show ?thesis using assms by (simp add: int_truediv_def split: if_splits)
next
  case NInf
  then show ?thesis using assms by (simp add: int_truediv_def split: if_splits)
next
  case NaN
  then show ?thesis using assms by (simp add: int_truediv_def split: if_splits)
qed

lemma proportion_rounding:
  assumes "0 < b" "b \<le> total_deposits" "total_deposits < 2 ^ 51"
  defines "x \<equiv> of_int b / of_int total_deposits"
  shows "int_truediv b total_deposits = Inr (Fin (nearest x))"
    and "nearest x \<le> x + x / 2 ^ 53"
    and "1 / 2 ^ 52 \<le> nearest x"
proof -
  have tpos: "0 < total_deposits" using assms by simp
  have xpos: "0 < x" using assms tpos by (simp add: x_def)
  have "x \<le> 1" using assms tpos by (simp add: x_def)
  then have "x < 2 powi 1023" by (rule le_less_trans) simp
  then have fin: "round_double x = Fin (nearest x)"
    using xpos by (intro round_double_finite)
  show "int_truediv b total_deposits = Inr (Fin (nearest x))"
    using tpos fin by (simp add: int_truediv_def x_def)
  have "(of_int total_deposits :: rat) < of_int (2 ^ 51)"
    using assms(3) by (simp only: of_int_less_iff)
  then have t51: "(of_int total_deposits :: rat) < 2 ^ 51" by simp
  have "(1::rat) \<le> of_int b" using assms(1) by linarith
  then have "1 / of_int total_deposits \<le> x"
    using tpos by (simp add: x_def divide_right_mono)
  moreover have "(1::rat) / 2 ^ 51 < 1 / of_int total_deposits"
    using t51 tpos by (intro divide_strict_left_mono) simp_all
  ultimately have lo: "1 / 2 ^ 51 < x" by linarith
  have "(2::rat) powi (- 1022) \<le> 1 / 2 ^ 51"
    by (simp add: power_int_minus_divide)
  then have normal: "2 powi (- 1022) \<le> x" using lo by linarith
  show "nearest x \<le> x + x / 2 ^ 53"
    using nearest_bounds(1) [OF xpos normal] .
  define A where "A = x / 2 ^ 53"
  define B :: rat where "B = 1 / 2 ^ 51"
  define C :: rat where "C = 1 / 2 ^ 52"
  have "x - A \<le> nearest x"
    using nearest_bounds(2) [OF xpos normal] by (simp only: A_def)
  moreover have "A \<le> x / 2"
    unfolding A_def using xpos by (intro divide_left_mono) auto
  moreover have "C = B / 2" by (simp add: B_def C_def)
  moreover have "B < x" using lo by (simp only: B_def)
  ultimately have "C \<le> nearest x" by linarith
  then show "1 / 2 ^ 52 \<le> nearest x" by (simp only: C_def)
qed

lemma proportion_finite:
  assumes "0 < b" "b \<le> tot"
  shows "int_truediv b tot = Inr (Fin (nearest (of_int b / of_int tot)))"
proof -
  have "0 < (of_int b / of_int tot :: rat)" using assms by simp
  moreover have "(of_int b / of_int tot :: rat) \<le> 1" using assms by simp
  then have "(of_int b / of_int tot :: rat) < 2 powi 1023"
    by (rule le_less_trans) simp
  ultimately have "round_double (of_int b / of_int tot) = Fin (nearest (of_int b / of_int tot))"
    by (rule round_double_finite)
  then show ?thesis using assms by (simp add: int_truediv_def)
qed

lemma product_rounding:
  fixes X p y :: rat
  assumes base: "1 \<le> base" "base < 2 ^ 51"
    and p: "1 / 2 ^ 52 \<le> p" "p \<le> x + x / 2 ^ 53" and x: "0 < x" "x \<le> 1"
  defines "y \<equiv> of_int base * p"
  shows "round_double y = Fin (nearest y)"
    and "0 \<le> nearest y"
    and "nearest y \<le> of_int base * x + 3 * (of_int base * x / 2 ^ 53)"
proof -
  define E where "E = x / 2 ^ 53"
  define B :: rat where "B = of_int base"
  have B1: "1 \<le> B" using base(1) by (simp add: B_def)
  have "(of_int base :: rat) < of_int (2 ^ 51)" using base(2) by (simp only: of_int_less_iff)
  then have B51: "B < 2 ^ 51" by (simp add: B_def)
  have E0: "0 \<le> E" "E \<le> x" using x by (simp_all add: E_def field_simps)
  have pE: "p \<le> x + E" using p(2) by (simp only: E_def)
  have ppos: "0 < p" using p(1) by (rule less_le_trans [rotated]) simp
  have ypos: "0 < y" using B1 ppos by (simp add: y_def B_def [symmetric])
  have "p \<le> 1 * p" by simp
  also have "\<dots> \<le> B * p" using B1 ppos by (intro mult_right_mono) simp_all
  finally have py: "p \<le> y" by (simp add: y_def B_def)
  have "(2::rat) powi (- 1022) \<le> 1 / 2 ^ 52"
    by (simp add: power_int_minus_divide)
  then have normal: "2 powi (- 1022) \<le> y" using p(1) py by linarith
  have "y \<le> B * (x + E)"
    unfolding y_def B_def [symmetric] using pE B1 by (intro mult_left_mono) simp_all
  then have yle: "y \<le> B * x + B * E" by (simp add: algebra_simps)
  have "B * x \<le> B * 1" using x B1 by (intro mult_left_mono) simp_all
  moreover have "B * E \<le> B * 1" using E0 x B1 by (intro mult_left_mono) simp_all
  ultimately have "y \<le> 2 * B" using yle by linarith
  also have "\<dots> < 2 * 2 ^ 51" using B51 by simp
  also have "\<dots> \<le> 2 powi 1023" by simp
  finally have "y < 2 powi 1023" .
  then show fin: "round_double y = Fin (nearest y)"
    using ypos by (intro round_double_finite)
  show "0 \<le> nearest y"
    using round_double_pos_nonneg [OF ypos fin] .
  define F where "F = y / 2 ^ 53"
  have "nearest y \<le> y + F"
    using nearest_bounds(1) [OF ypos normal] by (simp only: F_def)
  moreover have "F \<le> (B * x + B * E) / 2 ^ 53"
    unfolding F_def using yle by (intro divide_right_mono) simp_all
  moreover have "(B * x + B * E) / 2 ^ 53 = B * E + B * E / 2 ^ 53"
    by (simp add: E_def add_divide_distrib)
  moreover have "B * E / 2 ^ 53 \<le> B * E"
  proof -
    have "0 \<le> B * E" using B1 E0 by simp
    then show ?thesis by (simp add: field_simps)
  qed
  ultimately have "nearest y \<le> B * x + 3 * (B * E)"
    using yle by linarith
  then show "nearest y \<le> of_int base * x + 3 * (of_int base * x / 2 ^ 53)"
    by (simp add: B_def E_def)
qed

lemma product_finite:
  assumes base: "0 \<le> base" and b: "0 < b" "b \<le> tot" and range: "base * tot < 2 ^ 51"
  defines "y \<equiv> of_int base * nearest (of_int b / of_int tot)"
  shows "round_double y = Fin (nearest y)" and "0 \<le> nearest y"
proof -
  have both: "round_double y = Fin (nearest y) \<and> 0 \<le> nearest y"
  proof (cases "base = 0")
    case True
    then show ?thesis by (simp add: y_def)
  next
    case False
    then have base1: "1 \<le> base" using base by simp
    have tpos: "0 < tot" using b by simp
    have "base * 1 \<le> base * tot" using base tpos by (intro mult_left_mono) simp_all
    then have base51: "base < 2 ^ 51" using range by simp
    have "1 * tot \<le> base * tot" using base1 tpos by (intro mult_right_mono) simp_all
    then have t51: "tot < 2 ^ 51" using range by simp
    define x :: rat where "x = of_int b / of_int tot"
    have xpos: "0 < x" and x1: "x \<le> 1" using b tpos by (simp_all add: x_def)
    have p1: "1 / 2 ^ 52 \<le> nearest x" and p2: "nearest x \<le> x + x / 2 ^ 53"
      using proportion_rounding(2,3) [OF b t51] by (simp_all only: x_def)
    show ?thesis
      using product_rounding(1,2) [OF base1 base51 p1 p2 xpos x1]
      by (simp only: y_def x_def)
  qed
  show "round_double y = Fin (nearest y)" using both by simp
  show "0 \<le> nearest y" using both by simp
qed

subsection \<open>One participant's share\<close>

text \<open>
  The share never exceeds the exact quotient \<open>base \<times> b / total\<close> as long as
  \<open>base \<times> total < 2 ^ 51\<close>: the exact quotient is a multiple of \<open>1 / total\<close>, and
  the two roundings together add less than that to it.
\<close>

lemma client_share_Inr:
  assumes "client_share base rate total_deposits b = Inr d"
  shows "\<exists>p fb. int_truediv b total_deposits = Inr p \<and> float_of_int base = Inr fb
             \<and> py_int (float_mul fb p) = Inr (sats_amount d)"
  using assms
  by (auto simp: client_share_def py_bind_def split: sum.splits if_splits)

lemma client_share_bound:
  assumes cs: "client_share base rate total_deposits b = Inr d"
    and base: "0 \<le> base" and b: "0 < b" "b \<le> total_deposits"
    and range: "base * total_deposits < 2 ^ 51"
  shows "0 \<le> sats_amount d"
    and "(of_int (sats_amount d) :: rat) \<le> of_int base * of_int b / of_int total_deposits"
proof -
  have tpos: "0 < total_deposits" using b by simp
  obtain p fb where p: "int_truediv b total_deposits = Inr p"
    and fb: "float_of_int base = Inr fb"
    and sats: "py_int (float_mul fb p) = Inr (sats_amount d)"
    using client_share_Inr [OF cs] by blast
  obtain p' where p': "p = Fin p'" using int_truediv_Fin [OF p] by blast
  have "base * 1 \<le> base * total_deposits"
    using base tpos by (intro mult_left_mono) simp_all
  then have base51: "base < 2 ^ 51" using range by simp
  then have base53: "base < 2 ^ 53" by simp
  have fb': "fb = Fin (of_int base)"
    using fb float_of_int_exact [OF base base53] by simp
  define x :: rat where "x = of_int b / of_int total_deposits"
  have both: "0 \<le> sats_amount d \<and> (of_int (sats_amount d) :: rat) \<le> of_int base * x"
  proof (cases "base = 0")
    case True
    then have "sats_amount d = 0"
      using sats by (simp add: fb' p' toward_zero_def)
    then show ?thesis using True by simp
  next
    case False
    then have base1: "1 \<le> base" using base by simp
    have "1 * total_deposits \<le> base * total_deposits"
      using base1 tpos by (intro mult_right_mono) simp_all
    then have t51: "total_deposits < 2 ^ 51" using range by simp
    have xpos: "0 < x" and x1: "x \<le> 1"
      using b tpos by (simp_all add: x_def)
    have pn: "p' = nearest x"
      using proportion_rounding(1) [OF b t51] p p' by (simp add: x_def)
    have p1: "1 / 2 ^ 52 \<le> p'" and p2: "p' \<le> x + x / 2 ^ 53"
      using proportion_rounding(2,3) [OF b t51] by (simp_all only: pn x_def)
    define y where "y = of_int base * p'"
    have fin: "round_double y = Fin (nearest y)"
      and v0: "0 \<le> nearest y"
      and vle: "nearest y \<le> of_int base * x + 3 * (of_int base * x / 2 ^ 53)"
      using product_rounding [OF base1 base51 p1 p2 xpos x1] by (simp_all only: y_def)
    have sd: "sats_amount d = \<lfloor>nearest y\<rfloor>"
      using sats v0 by (simp add: fb' p' y_def [symmetric] fin toward_zero_nonneg)
    have nonneg: "0 \<le> sats_amount d" using v0 by (simp add: sd)
    define X :: rat where "X = of_int base * x"
    define k where "k = \<lfloor>nearest y\<rfloor>"
    have "of_int k \<le> X"
    proof (rule ccontr)
      assume "\<not> of_int k \<le> X"
      then have "X < of_int k" by simp
      then have "of_int (base * b) / of_int total_deposits < (of_int k :: rat)"
        by (simp add: X_def x_def)
      then have "(of_int (base * b) :: rat) < of_int k * of_int total_deposits"
        using tpos by (simp add: pos_divide_less_eq)
      then have "(of_int (base * b) :: rat) < of_int (k * total_deposits)" by simp
      then have "base * b < k * total_deposits" by (simp only: of_int_less_iff)
      then have "base * b + 1 \<le> k * total_deposits" by simp
      then have "(of_int (base * b + 1) :: rat) \<le> of_int (k * total_deposits)"
        by (simp only: of_int_le_iff)
      then have "(of_int (base * b) + 1 :: rat) \<le> of_int k * of_int total_deposits" by simp
      then have "(of_int (base * b) + 1) / of_int total_deposits \<le> (of_int k :: rat)"
        using tpos by (simp add: pos_divide_le_eq)
      then have kX: "X + 1 / of_int total_deposits \<le> of_int k"
        by (simp add: X_def x_def add_divide_distrib)
      define E where "E = X / 2 ^ 53"
      define R where "R = 1 / (of_int total_deposits :: rat)"
      have kn: "of_int k \<le> nearest y" by (simp add: k_def)
      have vle': "nearest y \<le> X + 3 * E"
        using vle by (simp only: X_def E_def)
      have kX': "X + R \<le> of_int k"
        using kX by (simp only: R_def)
      have "R \<le> 3 * E" using kn vle' kX' by linarith
      then have "R * of_int total_deposits \<le> 3 * E * of_int total_deposits"
        using tpos by (intro mult_right_mono) simp_all
      moreover have "R * of_int total_deposits = 1"
        using tpos by (simp add: R_def)
      moreover have "3 * E * of_int total_deposits = 3 * of_int (base * b) / 2 ^ 53"
        using tpos by (simp add: E_def X_def x_def)
      ultimately have "1 \<le> 3 * (of_int (base * b) :: rat) / 2 ^ 53"
        by (simp only:)
      then have "(2 ^ 53 :: rat) \<le> 3 * of_int (base * b)"
        by (simp add: pos_le_divide_eq)
      then have "(of_int (2 ^ 53) :: rat) \<le> of_int (3 * (base * b))" by simp
      then have "2 ^ 53 \<le> 3 * (base * b)" by (simp only: of_int_le_iff)
      moreover have "base * b \<le> base * total_deposits"
        using base b by (intro mult_left_mono) simp_all
      ultimately show False using range by simp
    qed
    then show ?thesis using nonneg by (simp add: sd k_def X_def)
  qed
  show "0 \<le> sats_amount d" using both by simp
  show "(of_int (sats_amount d) :: rat) \<le> of_int base * of_int b / of_int total_deposits"
    using both by (simp add: x_def)
qed

lemma share_le_base:
  assumes cs: "client_share base rate tot b = Inr d"
    and base: "0 \<le> base" and b: "0 < b" "b \<le> tot" and range: "base * tot < 2 ^ 51"
  shows "sats_amount d \<le> base"
proof -
  have "(of_int (sats_amount d) :: rat) \<le> of_int base * of_int b / of_int tot"
    using client_share_bound(2) [OF cs base b range] .
  also have "\<dots> = of_int base * (of_int b / of_int tot)" by simp
  also have "\<dots> \<le> of_int base * 1"
    using base b by (intro mult_left_mono) simp_all
  finally show ?thesis by simp
qed

lemma client_share_sats:
  assumes cs: "client_share base rate tot b = Inr d"
    and base: "0 \<le> base" and b: "0 < b" "b \<le> tot" and range: "base * tot < 2 ^ 51"
  shows "sats_amount d = \<lfloor>nearest (of_int base * nearest (of_int b / of_int tot))\<rfloor>"
proof -
  obtain p fb where p: "int_truediv b tot = Inr p"
    and fb: "float_of_int base = Inr fb"
    and sats: "py_int (float_mul fb p) = Inr (sats_amount d)"
    using client_share_Inr [OF cs] by blast
  have p': "p = Fin (nearest (of_int b / of_int tot))"
    using p proportion_finite [OF b] by simp
  have "base * 1 \<le> base * tot" using base b by (intro mult_left_mono) simp_all
  then have base53: "base < 2 ^ 53" using range by simp
  have fb': "fb = Fin (of_int base)"
    using fb float_of_int_exact [OF base base53] by simp
  show ?thesis
    using sats product_finite [OF base b range]
    by (simp add: fb' p' toward_zero_nonneg)
qed

lemma client_share_fiat:
  assumes cs: "client_share base (Fin r) tot b = Inr d"
    and base: "0 \<le> base" and b: "0 < b" "b \<le> tot" and range: "base * tot < 2 ^ 51"
  shows "dist_fiat_amount d = (if 0 < r then \<lfloor>nearest (of_int (sats_amount d) / r)\<rfloor> else 0)"
    and "dist_exchange_rate d = Fin r"
proof -
  have s0: "0 \<le> sats_amount d" using client_share_bound(1) [OF cs base b range] .
  have "sats_amount d \<le> base" using share_le_base [OF cs base b range] .
  moreover have "base * 1 \<le> base * tot" using base b by (intro mult_left_mono) simp_all
  ultimately have s53: "sats_amount d < 2 ^ 53" using range by simp
  have conv: "float_of_int (sats_amount d) = Inr (Fin (of_int (sats_amount d)))"
    using float_of_int_exact [OF s0 s53] .
  obtain p fb k where p: "int_truediv b tot = Inr p"
    and fb: "float_of_int base = Inr fb"
    and sats: "py_int (float_mul fb p) = Inr k"
    and fiat: "(if 0 < r then py_bind (float_of_int k) (\<lambda>sats. py_bind (float_div sats (Fin r)) py_int)
               else Inr 0) = Inr (dist_fiat_amount d)"
    and k: "sats_amount d = k" and rate: "dist_exchange_rate d = Fin r"
    using cs by (auto simp: client_share_def py_bind_def split: sum.splits if_splits)
  show "dist_exchange_rate d = Fin r" using rate .
  show "dist_fiat_amount d = (if 0 < r then \<lfloor>nearest (of_int (sats_amount d) / r)\<rfloor> else 0)"
  proof (cases "0 < r")
    case False
    then show ?thesis using fiat by simp
  next
    case True
    define q :: rat where "q = of_int (sats_amount d) / r"
    have q0: "0 \<le> q" using s0 True by (simp add: q_def)
    have run: "py_int (round_double q) = Inr (dist_fiat_amount d)"
      using fiat True conv by (simp add: k [symmetric] q_def)
    have fin: "round_double q = Fin (nearest q)"
    proof (cases "q = 0")
      case True
      then show ?thesis by simp
    next
      case False
      then have "0 < q" using q0 by simp
      then show ?thesis
        using run by (simp add: round_double_nearest split: if_splits)
    qed
    moreover have "0 \<le> nearest q"
    proof (cases "q = 0")
      case True
      then show ?thesis by simp
    next
      case False
      then have "0 < q" using q0 by simp
      then show ?thesis
        using round_double_pos_nonneg [of q "nearest q"] fin by simp
    qed
    ultimately show ?thesis
      using run True fin by (simp add: toward_zero_nonneg q_def)
  qed
qed

lemma share_lower:
  assumes base: "0 \<le> base" and b: "0 < b" "b \<le> tot" and range: "base * tot < 2 ^ 51"
  shows "of_int base * (of_int b / of_int tot) - 1
           < nearest (of_int base * nearest (of_int b / of_int tot))"
proof (cases "base = 0")
  case True
  then show ?thesis by simp
next
  case False
  then have base1: "1 \<le> base" using base by simp
  have tpos: "0 < tot" using b by simp
  have "base * 1 \<le> base * tot" using base tpos by (intro mult_left_mono) simp_all
  then have base51: "base < 2 ^ 51" using range by simp
  have "1 * tot \<le> base * tot" using base1 tpos by (intro mult_right_mono) simp_all
  then have t51: "tot < 2 ^ 51" using range by simp
  define x :: rat where "x = of_int b / of_int tot"
  define B :: rat where "B = of_int base"
  define p where "p = nearest x"
  define y where "y = B * p"
  define A where "A = x / 2 ^ 53"
  define F where "F = y / 2 ^ 53"
  have xpos: "0 < x" and x1: "x \<le> 1" using b tpos by (simp_all add: x_def)
  have B1: "1 \<le> B" using base1 by (simp add: B_def)
  have "(of_int base :: rat) < of_int (2 ^ 51)" using base51 by (simp only: of_int_less_iff)
  then have B51: "B < 2 ^ 51" by (simp add: B_def)
  have "(of_int tot :: rat) < of_int (2 ^ 51)" using t51 by (simp only: of_int_less_iff)
  then have T51: "(of_int tot :: rat) < 2 ^ 51" by simp
  have "(1::rat) \<le> of_int b" using b(1) by linarith
  then have "1 / of_int tot \<le> x" using tpos by (simp add: x_def divide_right_mono)
  moreover have "(1::rat) / 2 ^ 51 < 1 / of_int tot"
    using T51 tpos by (intro divide_strict_left_mono) simp_all
  ultimately have lo: "1 / 2 ^ 51 < x" by linarith
  have "(2::rat) powi (- 1022) \<le> 1 / 2 ^ 51" by (simp add: power_int_minus_divide)
  then have normal: "2 powi (- 1022) \<le> x" using lo by linarith
  have plow: "x - A \<le> p"
    using nearest_bounds(2) [OF xpos normal] by (simp only: A_def p_def)
  have p1: "1 / 2 ^ 52 \<le> p" and p2: "p \<le> x + x / 2 ^ 53"
    using proportion_rounding(2,3) [OF b t51] by (simp_all only: x_def p_def)
  have ppos: "0 < p" using p1 by (rule less_le_trans [rotated]) simp
  have ypos: "0 < y" using B1 ppos by (simp add: y_def)
  have "p \<le> 1 * p" by simp
  also have "\<dots> \<le> B * p" using B1 ppos by (intro mult_right_mono) simp_all
  finally have py: "p \<le> y" by (simp add: y_def)
  have "(2::rat) powi (- 1022) \<le> 1 / 2 ^ 52" by (simp add: power_int_minus_divide)
  then have ynormal: "2 powi (- 1022) \<le> y" using p1 py by linarith
  have near: "y - F \<le> nearest y"
    using nearest_bounds(2) [OF ypos ynormal] by (simp only: F_def)
  have A0: "0 \<le> A" and A1: "A \<le> 1 / 2 ^ 53"
    using xpos x1 by (simp_all add: A_def divide_right_mono)
  have pA: "p \<le> x + A" using p2 by (simp only: A_def)
  have "B * (x - A) \<le> B * p" using plow B1 by (intro mult_left_mono) simp_all
  then have ylow: "B * x - B * A \<le> y" by (simp add: y_def algebra_simps)
  have "B * A \<le> B * (1 / 2 ^ 53)" using A1 B1 by (intro mult_left_mono) simp_all
  also have "\<dots> < 2 ^ 51 * (1 / 2 ^ 53)" using B51 by (intro mult_strict_right_mono) simp_all
  also have "\<dots> = 1 / 4" by simp
  finally have BA: "B * A < 1 / 4" .
  have "p \<le> 2" using pA x1 A1 by simp
  then have "B * p \<le> B * 2" using B1 by (intro mult_left_mono) simp_all
  then have "y < 2 ^ 51 * 2" using B51 by (simp add: y_def)
  then have "F < 2 ^ 51 * 2 / 2 ^ 53" unfolding F_def by (intro divide_strict_right_mono) simp_all
  then have Fhalf: "F < 1 / 2" by simp
  have "B * x - 1 < nearest y" using near ylow BA Fhalf by linarith
  then show ?thesis by (simp only: B_def x_def y_def p_def)
qed

lemma client_share_lower:
  assumes cs: "client_share base rate tot b = Inr d"
    and base: "0 \<le> base" and b: "0 < b" "b \<le> tot" and range: "base * tot < 2 ^ 51"
  shows "spec_share base b tot - 1 \<le> sats_amount d"
proof -
  define X :: rat where "X = of_int base * (of_int b / of_int tot)"
  have "of_int (\<lfloor>X\<rfloor> - 1) \<le> X - 1" by simp
  also have "\<dots> < nearest (of_int base * nearest (of_int b / of_int tot))"
    using share_lower [OF base b range] by (simp only: X_def)
  finally have "\<lfloor>X\<rfloor> - 1 \<le> \<lfloor>nearest (of_int base * nearest (of_int b / of_int tot))\<rfloor>"
    by (simp only: le_floor_iff less_imp_le)
  then show ?thesis
    using client_share_sats [OF cs base b range] by (simp add: spec_share_def X_def)
qed

lemma exchange_rate_positive:
  assumes rate: "exchange_rate_of base fiat = Inr (Fin r)" and r: "0 < r"
    and base: "0 \<le> base" "base < 2 ^ 51" and fiat: "fiat < 2 ^ 51"
  shows "of_int base / r \<le> (of_int (2 * fiat) :: rat)" and "0 < fiat"
proof -
  have fpos: "0 < fiat"
    using rate r by (auto simp: exchange_rate_of_def split: if_splits)
  define x :: rat where "x = of_int base / of_int fiat"
  have rd: "round_double x = Fin r"
    using rate fpos by (auto simp: exchange_rate_of_def int_truediv_def x_def split: py_float.splits)
  have "base \<noteq> 0" using rd r by (auto simp: x_def)
  then have base1: "1 \<le> base" using base by simp
  have xpos: "0 < x" using base1 fpos by (simp add: x_def)
  have "x \<le> of_int base"
  proof -
    have "(1::rat) \<le> of_int fiat" using fpos by linarith
    then show ?thesis using base1 by (simp add: x_def divide_le_eq mult_le_cancel_left1)
  qed
  moreover have "(of_int base :: rat) < 2 powi 1023"
  proof -
    have "(of_int base :: rat) < of_int (2 ^ 51)" using base by (simp only: of_int_less_iff)
    also have "\<dots> = 2 powi 51" by simp
    also have "\<dots> \<le> 2 powi 1023" by (intro power_int_increasing) simp_all
    finally show ?thesis .
  qed
  ultimately have "x < 2 powi 1023" by simp
  then have rn: "r = nearest x" using round_double_finite [OF xpos] rd by simp
  have low: "2 powi (- 1022) \<le> x"
  proof -
    have "(of_int fiat :: rat) < of_int (2 ^ 51)" using fiat by (simp only: of_int_less_iff)
    then have "(of_int fiat :: rat) \<le> 2 powi 51" by simp
    then have "1 / 2 powi 51 \<le> 1 / (of_int fiat :: rat)"
      using fpos by (intro divide_left_mono) simp_all
    also have "\<dots> \<le> x"
      using base1 fpos by (simp add: x_def divide_right_mono)
    finally have "1 / 2 powi 51 \<le> x" .
    moreover have "(2::rat) powi (- 1022) \<le> 2 powi (- 51)" by (intro power_int_increasing) simp_all
    moreover have "(2::rat) powi (- 51) = 1 / 2 powi 51" by (simp add: power_int_minus field_simps)
    ultimately show ?thesis by simp
  qed
  define E where "E = x / 2 ^ 53"
  have "x - E \<le> r" using nearest_bounds(2) [OF xpos low] by (simp only: rn E_def)
  moreover have "E \<le> x / 2" using xpos by (simp add: E_def field_simps)
  ultimately have half: "x / 2 \<le> r" by linarith
  have "of_int base / r \<le> of_int base / (x / 2)"
    using half xpos base1 by (intro divide_left_mono) simp_all
  also have "\<dots> = of_int (2 * fiat)"
    using base1 fpos by (simp add: x_def)
  finally show "of_int base / r \<le> (of_int (2 * fiat) :: rat)" .
  show "0 < fiat" using fpos .
qed

lemma client_share_succeeds:
  assumes base: "0 \<le> base" and b: "0 < b" "b \<le> tot" and range: "base * tot < 2 ^ 51"
    and rate: "exchange_rate_of base fiat = Inr (Fin r)" and fiat: "fiat < 2 ^ 51"
  shows "\<exists>d. client_share base (Fin r) tot b = Inr d"
proof -
  define y :: rat where "y = of_int base * nearest (of_int b / of_int tot)"
  define k where "k = \<lfloor>nearest y\<rfloor>"
  have p: "int_truediv b tot = Inr (Fin (nearest (of_int b / of_int tot)))"
    using proportion_finite [OF b] .
  have "base * 1 \<le> base * tot" using base b by (intro mult_left_mono) simp_all
  then have base51: "base < 2 ^ 51" using range by simp
  then have base53: "base < 2 ^ 53" by simp
  have fb: "float_of_int base = Inr (Fin (of_int base))"
    using float_of_int_exact [OF base base53] .
  have prod: "round_double y = Fin (nearest y)" and n0: "0 \<le> nearest y"
    using product_finite [OF base b range] by (simp_all only: y_def)
  have sats: "py_int (float_mul (Fin (of_int base)) (Fin (nearest (of_int b / of_int tot)))) = Inr k"
    using prod n0 by (simp add: y_def [symmetric] k_def toward_zero_nonneg)
  have zero: "client_share base (Fin 0) tot b
                = Inr \<lparr>dist_fiat_amount = 0, sats_amount = k, dist_exchange_rate = Fin 0\<rparr>"
    unfolding client_share_def
    by (simp only: p fb sats py_bind_Inr float_gt_zero.simps less_irrefl if_False)
  have k0: "0 \<le> k" using n0 by (simp add: k_def)
  have kb: "k \<le> base" using share_le_base [OF zero base b range] by simp
  show ?thesis
  proof (cases "0 < r")
    case False
    then have "client_share base (Fin r) tot b
                = Inr \<lparr>dist_fiat_amount = 0, sats_amount = k, dist_exchange_rate = Fin r\<rparr>"
      unfolding client_share_def
      by (simp only: p fb sats py_bind_Inr float_gt_zero.simps if_False)
    then show ?thesis by blast
  next
    case True
    have k53: "k < 2 ^ 53" using kb base53 by simp
    have conv: "float_of_int k = Inr (Fin (of_int k))"
      using float_of_int_exact [OF k0 k53] .
    have q0: "0 \<le> (of_int k :: rat) / r" using k0 True by simp
    have "(of_int k :: rat) / r \<le> of_int base / r"
      using kb True by (intro divide_right_mono) simp_all
    then have q1: "(of_int k :: rat) / r \<le> of_int (2 * fiat)"
      using exchange_rate_positive(1) [OF rate True base base51 fiat] by linarith
    have "2 * fiat < 2 ^ 53" using fiat by simp
    from round_double_below_int [OF q0 q1 this]
    obtain v where v: "round_double (of_int k / r) = Fin v" by blast
    have r0: "r \<noteq> 0" using True by simp
    have "client_share base (Fin r) tot b
            = Inr \<lparr>dist_fiat_amount = toward_zero v, sats_amount = k, dist_exchange_rate = Fin r\<rparr>"
      unfolding client_share_def
      by (simp only: p fb sats py_bind_Inr float_gt_zero.simps True if_True conv float_div.simps
            r0 if_False py_float.case v py_int.simps)
    then show ?thesis by blast
  qed
qed

subsection \<open>The two loops\<close>

lemma update_member:
  "(k', v') \<in> set (AList.update k v al) \<Longrightarrow> (k', v') = (k, v) \<or> (k', v') \<in> set al"
  by (induction al) (auto split: if_splits)

lemma update_sum:
  fixes al :: "('k \<times> int) list"
  assumes "\<forall>(k', v') \<in> set al. 0 < v'"
  shows "sum_list (map snd (AList.update k v al)) \<le> sum_list (map snd al) + v"
  using assms by (induction al) (auto split: if_splits)

lemma update_positive:
  fixes al :: "('k \<times> int) list"
  assumes "\<forall>(k', v') \<in> set al. 0 < v'" "0 < v"
  shows "\<forall>(k', v') \<in> set (AList.update k v al). 0 < v'"
  using assms update_member [of _ _ k v al] by fastforce

lemma value_le_sum:
  fixes al :: "('k \<times> int) list"
  assumes "\<forall>(k, v) \<in> set al. 0 < v" "(k, v) \<in> set al"
  shows "v \<le> sum_list (map snd al)"
  using assms
proof (induction al)
  case Nil
  then show ?case by simp
next
  case (Cons a al)
  have rest: "0 \<le> sum_list (map snd al)"
    using Cons.prems(1) by (intro sum_list_nonneg) auto
  show ?case
  proof (cases "(k, v) = a")
    case True
    then show ?thesis using rest by auto
  next
    case False
    then have "v \<le> sum_list (map snd al)" using Cons by auto
    moreover have "0 < snd a" using Cons.prems(1) by auto
    ultimately show ?thesis by simp
  qed
qed

lemma positive_balances_Cons:
  "positive_balances ev s t (c # cs) =
     (if 0 < remaining_balance ev s (client_id c) t
      then remaining_balance ev s (client_id c) t # positive_balances ev s t cs
      else positive_balances ev s t cs)"
  by (simp add: positive_balances_def)

lemma positive_balances_Nil [simp]: "positive_balances ev s t [] = []"
  by (simp add: positive_balances_def)

lemma positive_names:
  "{client_id c | c. c \<in> set clients \<and> 0 < remaining_balance ev s (client_id c) t}
     = set (map client_id (filter (\<lambda>c. 0 < remaining_balance ev s (client_id c) t) clients))"
  by auto

lemma balance_read:
  "get_client_balance_summary ev s cid t = Inr b \<Longrightarrow> b = remaining_balance ev s cid t"
  by (cases "raises ev (GetBalance cid)") (simp_all add: get_client_balance_summary_def)

lemma collect_balances_total:
  "collect_balances ev s t clients cb0 tot0 = Inr (cb, tot)
     \<Longrightarrow> tot = tot0 + sum_list (positive_balances ev s t clients)"
proof (induction clients arbitrary: cb0 tot0)
  case Nil
  then show ?case by simp
next
  case (Cons c cs)
  show ?case
  proof (cases "get_client_balance_summary ev s (client_id c) t")
    case (Inl e)
    then show ?thesis using Cons.prems by simp
  next
    case (Inr bal)
    note bal = balance_read [OF Inr]
    show ?thesis
    proof (cases "0 < bal")
      case True
      then have "collect_balances ev s t cs (AList.update (client_id c) bal cb0) (tot0 + bal)
                   = Inr (cb, tot)"
        using Cons.prems(1) Inr by simp
      from Cons.IH [OF this]
      show ?thesis using True bal by (simp add: positive_balances_Cons)
    next
      case False
      then have "collect_balances ev s t cs cb0 tot0 = Inr (cb, tot)"
        using Cons.prems(1) Inr by simp
      from Cons.IH [OF this]
      show ?thesis using False bal by (simp add: positive_balances_Cons)
    qed
  qed
qed

lemma collect_balances_distinct:
  "collect_balances ev s t clients cb0 tot0 = Inr (cb, tot) \<Longrightarrow> distinct (map fst cb0)
     \<Longrightarrow> distinct (map fst cb)"
proof (induction clients arbitrary: cb0 tot0)
  case Nil
  then show ?case by simp
next
  case (Cons c cs)
  then show ?case
    by (auto simp: AList.distinct_update split: sum.splits if_splits)
qed

lemma collect_balances_member:
  "collect_balances ev s t clients cb0 tot0 = Inr (cb, tot) \<Longrightarrow> (cid, b) \<in> set cb
     \<Longrightarrow> (cid, b) \<in> set cb0
         \<or> (cid \<in> client_id ` set clients \<and> b = remaining_balance ev s cid t \<and> 0 < b)"
proof (induction clients arbitrary: cb0 tot0)
  case Nil
  then show ?case by simp
next
  case (Cons c cs)
  show ?case
  proof (cases "get_client_balance_summary ev s (client_id c) t")
    case (Inl e)
    then show ?thesis using Cons.prems by simp
  next
    case (Inr bal)
    note bal = balance_read [OF Inr]
    show ?thesis
    proof (cases "0 < bal")
      case True
      then have "collect_balances ev s t cs (AList.update (client_id c) bal cb0) (tot0 + bal)
                   = Inr (cb, tot)"
        using Cons.prems(1) Inr by simp
      from Cons.IH [OF this Cons.prems(2)]
      show ?thesis
        using update_member [of cid b "client_id c" bal cb0] True bal by auto
    next
      case False
      then have "collect_balances ev s t cs cb0 tot0 = Inr (cb, tot)"
        using Cons.prems(1) Inr by simp
      from Cons.IH [OF this Cons.prems(2)]
      show ?thesis by auto
    qed
  qed
qed

lemma collect_balances_keys:
  "collect_balances ev s t clients cb0 tot0 = Inr (cb, tot)
     \<Longrightarrow> fst ` set cb
           = fst ` set cb0
             \<union> {client_id c | c. c \<in> set clients \<and> 0 < remaining_balance ev s (client_id c) t}"
proof (induction clients arbitrary: cb0 tot0)
  case Nil
  then show ?case by simp
next
  case (Cons c cs)
  show ?case
  proof (cases "get_client_balance_summary ev s (client_id c) t")
    case (Inl e)
    then show ?thesis using Cons.prems by simp
  next
    case (Inr bal)
    note bal = balance_read [OF Inr]
    show ?thesis
    proof (cases "0 < bal")
      case True
      then have "collect_balances ev s t cs (AList.update (client_id c) bal cb0) (tot0 + bal)
                   = Inr (cb, tot)"
        using Cons.prems(1) Inr by simp
      from Cons.IH [OF this]
      show ?thesis
        using True bal by (auto simp: AList.dom_update)
    next
      case False
      then have "collect_balances ev s t cs cb0 tot0 = Inr (cb, tot)"
        using Cons.prems(1) Inr by simp
      from Cons.IH [OF this]
      show ?thesis using False bal by auto
    qed
  qed
qed

lemma collect_balances_sum:
  "collect_balances ev s t clients cb0 tot0 = Inr (cb, tot)
     \<Longrightarrow> \<forall>(k, v) \<in> set cb0. 0 < v
     \<Longrightarrow> sum_list (map snd cb)
           \<le> sum_list (map snd cb0) + sum_list (positive_balances ev s t clients)"
proof (induction clients arbitrary: cb0 tot0)
  case Nil
  then show ?case by simp
next
  case (Cons c cs)
  show ?case
  proof (cases "get_client_balance_summary ev s (client_id c) t")
    case (Inl e)
    then show ?thesis using Cons.prems by simp
  next
    case (Inr bal)
    note bal = balance_read [OF Inr]
    show ?thesis
    proof (cases "0 < bal")
      case True
      then have run: "collect_balances ev s t cs (AList.update (client_id c) bal cb0) (tot0 + bal)
                   = Inr (cb, tot)"
        using Cons.prems(1) Inr by simp
      have pos: "\<forall>(k, v) \<in> set (AList.update (client_id c) bal cb0). 0 < v"
        using update_positive [OF Cons.prems(2) True] .
      from Cons.IH [OF run pos] update_sum [OF Cons.prems(2), of "client_id c" bal]
      show ?thesis
        using True bal by (simp add: positive_balances_Cons)
    next
      case False
      then have "collect_balances ev s t cs cb0 tot0 = Inr (cb, tot)"
        using Cons.prems(1) Inr by simp
      from Cons.IH [OF this Cons.prems(2)]
      show ?thesis using False bal by (simp add: positive_balances_Cons)
    qed
  qed
qed

lemma collect_balances_succeeds:
  "\<forall>c \<in> set clients. \<not> raises ev (GetBalance (client_id c))
     \<Longrightarrow> \<exists>cb tot. collect_balances ev s t clients cb0 tot0 = Inr (cb, tot)"
  by (induction clients arbitrary: cb0 tot0) (simp_all add: get_client_balance_summary_def)

lemma collected_entry:
  assumes run: "collect_balances ev s t clients [] 0 = Inr (cb, tot)"
    and tot: "tot = sum_list (positive_balances ev s t clients)"
    and mem: "(cid, b) \<in> set cb"
  shows "cid \<in> client_id ` set clients" and "b = remaining_balance ev s cid t"
    and "0 < b" and "b \<le> tot"
proof -
  show c: "cid \<in> client_id ` set clients" and "b = remaining_balance ev s cid t" and "0 < b"
    using collect_balances_member [OF run mem] by simp_all
  have pos: "\<forall>(k, v) \<in> set cb. 0 < v"
    using collect_balances_member [OF run] by auto
  have "b \<le> sum_list (map snd cb)" using value_le_sum [OF pos mem] .
  also have "\<dots> \<le> sum_list (positive_balances ev s t clients)"
    using collect_balances_sum [OF run] by simp
  finally show "b \<le> tot" using tot by simp
qed

lemma share_out_keys:
  "share_out base rate tot cb = Inr ds \<Longrightarrow> map fst ds = map fst cb"
  by (induction cb arbitrary: ds) (auto split: sum.splits)

lemma share_out_member:
  "share_out base rate tot cb = Inr ds \<Longrightarrow> (cid, d) \<in> set ds
     \<Longrightarrow> \<exists>b. (cid, b) \<in> set cb \<and> client_share base rate tot b = Inr d"
proof (induction cb arbitrary: ds)
  case Nil
  then show ?case by simp
next
  case (Cons a cb)
  obtain k b where a: "a = (k, b)" by (cases a)
  from Cons.prems(1) obtain d' ds' where d': "client_share base rate tot b = Inr d'"
    and ds': "share_out base rate tot cb = Inr ds'" and ds: "ds = (k, d') # ds'"
    by (auto simp: a split: sum.splits)
  show ?case
  proof (cases "(cid, d) = (k, d')")
    case True
    then show ?thesis using d' by (auto simp: a)
  next
    case False
    then have "(cid, d) \<in> set ds'" using Cons.prems(2) ds by auto
    from Cons.IH [OF ds' this] show ?thesis by auto
  qed
qed

lemma share_out_succeeds:
  "\<forall>(cid, b) \<in> set cb. \<exists>d. client_share base rate tot b = Inr d
     \<Longrightarrow> \<exists>ds. share_out base rate tot cb = Inr ds"
  by (induction cb) (auto split: sum.splits)

lemma share_out_sum:
  assumes "share_out base rate tot cb = Inr ds"
    and "0 \<le> base" "base * tot < 2 ^ 51"
    and "\<forall>(cid, b) \<in> set cb. 0 < b \<and> b \<le> tot"
  shows "(of_int (sum_list (map (\<lambda>(cid, d). sats_amount d) ds)) :: rat)
           \<le> of_int base * of_int (sum_list (map snd cb)) / of_int tot"
  using assms(1,4)
proof (induction cb arbitrary: ds)
  case Nil
  then show ?case by simp
next
  case (Cons a cb)
  obtain cid b where a: "a = (cid, b)" by (cases a)
  from Cons.prems(1) obtain d ds' where d: "client_share base rate tot b = Inr d"
    and ds': "share_out base rate tot cb = Inr ds'" and ds: "ds = (cid, d) # ds'"
    by (auto simp: a split: sum.splits)
  have b: "0 < b" "b \<le> tot" using Cons.prems(2) by (simp_all add: a)
  have one: "(of_int (sats_amount d) :: rat) \<le> of_int base * of_int b / of_int tot"
    using client_share_bound(2) [OF d assms(2) b assms(3)] .
  have rest: "(of_int (sum_list (map (\<lambda>(cid, d). sats_amount d) ds')) :: rat)
           \<le> of_int base * of_int (sum_list (map snd cb)) / of_int tot"
    using Cons.IH [OF ds'] Cons.prems(2) by simp
  show ?case
    using one rest by (simp add: ds a distrib_left add_divide_distrib)
qed

lemma distribution_body_loops:
  assumes "get_flow_mode_clients ev s = Inr clients"
    and "crypto_amount tx = Some T" "fiat_amount tx = Some fiat"
    and "commission_breakdown (float_or_zero (commission_percentage tx))
           (float_or_zero (discount tx)) T = Inr (f, base, cm)"
    and "exchange_rate_of base fiat = Inr rate"
  shows "distribution_body ev s tx =
           (if clients = [] then Inr []
            else py_bind (collect_balances ev s (transaction_time tx) clients [] 0)
                   (\<lambda>(cb, tot). if tot = 0 then Inr [] else share_out base rate tot cb))"
  by (simp add: distribution_body_def assms)

lemma allocation_cases:
  assumes "get_flow_mode_clients ev s = Inr clients"
    and "crypto_amount tx = Some T" "fiat_amount tx = Some fiat"
    and "commission_breakdown (float_or_zero (commission_percentage tx))
           (float_or_zero (discount tx)) T = Inr (f, base, cm)"
    and "exchange_rate_of base fiat = Inr rate"
    and "tot = sum_list (positive_balances ev s (transaction_time tx) clients)"
  shows "calculate_distribution_amounts ev s tx = []
         \<or> (\<exists>cb. collect_balances ev s (transaction_time tx) clients [] 0 = Inr (cb, tot)
                 \<and> tot \<noteq> 0
                 \<and> share_out base rate tot cb = Inr (calculate_distribution_amounts ev s tx))"
proof (cases "collect_balances ev s (transaction_time tx) clients [] 0")
  case (Inl e)
  then show ?thesis
    by (simp add: calculate_distribution_amounts_def distribution_body_loops [OF assms(1-5)])
next
  case (Inr res)
  obtain cb tot' where res: "res = (cb, tot')" by (cases res)
  have "tot' = tot"
    using collect_balances_total [OF Inr [unfolded res]] assms(6) by simp
  then have run: "collect_balances ev s (transaction_time tx) clients [] 0 = Inr (cb, tot)"
    using Inr res by simp
  show ?thesis
  proof (cases "clients = [] \<or> tot = 0")
    case True
    then show ?thesis
      by (auto simp: calculate_distribution_amounts_def distribution_body_loops [OF assms(1-5)] run)
  next
    case False
    then show ?thesis
      by (cases "share_out base rate tot cb")
         (simp_all add: calculate_distribution_amounts_def distribution_body_loops [OF assms(1-5)] run)
  qed
qed

subsection \<open>Doubles of the uneven pool\<close>

lemma double_29_100: "round_double (29 / 100) = Fin (5224175567749775 / 18014398509481984)"
  using round_double_certificate [of "(29 / 100)" "- 2" "5224175567749775"] by simp

lemma double_29_share: "round_double (16325548649218046875 / 562949953421312) = Fin (7971459301375999 / 274877906944)"
  using round_double_certificate [of "(16325548649218046875 / 562949953421312)" "14" "7971459301375999"] by simp

lemma double_71_100: "round_double (71 / 100) = Fin (799388933858263 / 1125899906842624)"
  using round_double_certificate [of "(71 / 100)" "- 1" "6395111470866104"] by simp

lemma double_71_share: "round_double (2498090418307071875 / 35184372088832) = Fin 71000"
  using round_double_certificate [of "(2498090418307071875 / 35184372088832)" "16" "4879082848256000"] by simp

lemma double_28999_100: "round_double (28999 / 100) = Fin (1275389507755049 / 4398046511104)"
  using round_double_certificate [of "(28999 / 100)" "8" "5101558031020196"] by simp

lemma exact_amounts:
  "round_double 100000 = Fin 100000" "round_double 28999 = Fin 28999"
  "round_double 71000 = Fin 71000" "round_double 710 = Fin 710"
  using round_double_of_int [of 100000] round_double_of_int [of 28999]
    round_double_of_int [of 71000] round_double_of_int [of 710]
  by simp_all

subsection \<open>The allocation\<close>

text \<open>
  Claim C3, as the code has it. Take a transaction with total and fiat amount, let
  \<open>base\<close> and the exchange rate \<open>r\<close> be what the decomposition gives, and let
  \<open>tot\<close> be the sum of the positive remaining balances of the eligible participants
  as of the transaction's own time, with \<open>0 \<le> base\<close>, \<open>base \<times> tot < 2 ^ 51\<close> and
  \<open>fiat < 2 ^ 51\<close>. Then every entry of the result belongs to an eligible participant
  whose remaining balance \<open>b\<close> as of that time is strictly positive; its atomic share
  is the double-precision product of \<open>base\<close> with the double nearest to \<open>b / tot\<close>,
  rounded down, which is at least 0 and is either \<open>floor (base \<times> b / tot)\<close> or one
  less; its fiat equivalent is the double-precision quotient of the share by
  \<open>r\<close>, rounded down, when \<open>r > 0\<close>, and 0 otherwise. The result has one entry per
  participant id, the shares sum to at most \<open>base\<close>, the result is empty when no
  participant has a positive balance, and when no balance read raises the result has
  an entry for exactly the participants with a positive balance.
\<close>

theorem allocation_in_double_arithmetic:
  assumes tx: "crypto_amount tx = Some T" "fiat_amount tx = Some fiat" "transaction_time tx = t"
    and breakdown: "commission_breakdown (float_or_zero (commission_percentage tx))
                      (float_or_zero (discount tx)) T = Inr (f, base, cm)"
    and rate: "exchange_rate_of base fiat = Inr (Fin r)"
    and clients: "get_flow_mode_clients ev s = Inr clients"
    and tot: "tot = sum_list (positive_balances ev s t clients)"
    and range: "0 \<le> base" "base * tot < 2 ^ 51" "fiat < 2 ^ 51"
  shows "(\<forall>(cid, d) \<in> set (calculate_distribution_amounts ev s tx).
            cid \<in> client_id ` set clients \<and> 0 < remaining_balance ev s cid t
            \<and> sats_amount d
                = \<lfloor>nearest (of_int base
                              * nearest (of_int (remaining_balance ev s cid t) / of_int tot))\<rfloor>
            \<and> 0 \<le> sats_amount d
            \<and> spec_share base (remaining_balance ev s cid t) tot - 1 \<le> sats_amount d
            \<and> sats_amount d \<le> spec_share base (remaining_balance ev s cid t) tot
            \<and> dist_fiat_amount d
                = (if 0 < r then \<lfloor>nearest (of_int (sats_amount d) / r)\<rfloor> else 0)
            \<and> dist_exchange_rate d = Fin r)
         \<and> distinct (map fst (calculate_distribution_amounts ev s tx))
         \<and> sum_list (map (\<lambda>(cid, d). sats_amount d) (calculate_distribution_amounts ev s tx))
             \<le> base
         \<and> ((\<forall>c \<in> set clients. remaining_balance ev s (client_id c) t \<le> 0)
              \<longrightarrow> calculate_distribution_amounts ev s tx = [])
         \<and> ((\<forall>c \<in> set clients. \<not> raises ev (GetBalance (client_id c)))
              \<longrightarrow> fst ` set (calculate_distribution_amounts ev s tx)
                   = {client_id c | c. c \<in> set clients
                                       \<and> 0 < remaining_balance ev s (client_id c) t})"
proof -
  let ?ds = "calculate_distribution_amounts ev s tx"
  have tot': "tot = sum_list (positive_balances ev s (transaction_time tx) clients)"
    using tot tx(3) by simp
  note cases = allocation_cases [OF clients tx(1,2) breakdown rate tot']
  note loops = distribution_body_loops [OF clients tx(1,2) breakdown rate]
  have shares: "cid \<in> client_id ` set clients \<and> 0 < remaining_balance ev s cid t
            \<and> sats_amount d
                = \<lfloor>nearest (of_int base
                              * nearest (of_int (remaining_balance ev s cid t) / of_int tot))\<rfloor>
            \<and> 0 \<le> sats_amount d
            \<and> spec_share base (remaining_balance ev s cid t) tot - 1 \<le> sats_amount d
            \<and> sats_amount d \<le> spec_share base (remaining_balance ev s cid t) tot
            \<and> dist_fiat_amount d
                = (if 0 < r then \<lfloor>nearest (of_int (sats_amount d) / r)\<rfloor> else 0)
            \<and> dist_exchange_rate d = Fin r"
    if mem: "(cid, d) \<in> set ?ds" for cid d
  proof -
    from mem have "?ds \<noteq> []" by auto
    with cases obtain cb
      where run: "collect_balances ev s t clients [] 0 = Inr (cb, tot)"
        and out: "share_out base (Fin r) tot cb = Inr ?ds"
      using tx(3) by auto
    from share_out_member [OF out mem] obtain b
      where b: "(cid, b) \<in> set cb" and cs: "client_share base (Fin r) tot b = Inr d"
      by blast
    note entry = collected_entry [OF run tot b]
    have bal: "remaining_balance ev s cid t = b" using entry(2) by simp
    have "(of_int (sats_amount d) :: rat) \<le> of_int base * (of_int b / of_int tot)"
      using client_share_bound(2) [OF cs range(1) entry(3,4) range(2)] by simp
    then have "sats_amount d \<le> spec_share base b tot"
      by (simp add: spec_share_def le_floor_iff)
    then show ?thesis
      using entry(1,3) client_share_bound(1) [OF cs range(1) entry(3,4) range(2)]
        client_share_lower [OF cs range(1) entry(3,4) range(2)]
        client_share_sats [OF cs range(1) entry(3,4) range(2)]
        client_share_fiat [OF cs range(1) entry(3,4) range(2)]
      by (simp only: bal simp_thms)
  qed
  have keys: "distinct (map fst ?ds)"
  proof (cases "?ds = []")
    case True
    then show ?thesis by simp
  next
    case False
    with cases obtain cb
      where run: "collect_balances ev s t clients [] 0 = Inr (cb, tot)"
        and out: "share_out base (Fin r) tot cb = Inr ?ds"
      using tx(3) by auto
    show ?thesis
      using share_out_keys [OF out] collect_balances_distinct [OF run] by simp
  qed
  have total: "sum_list (map (\<lambda>(cid, d). sats_amount d) ?ds) \<le> base"
  proof (cases "?ds = []")
    case True
    then show ?thesis using range(1) by simp
  next
    case False
    with cases obtain cb
      where run: "collect_balances ev s t clients [] 0 = Inr (cb, tot)"
        and nz: "tot \<noteq> 0"
        and out: "share_out base (Fin r) tot cb = Inr ?ds"
      using tx(3) by auto
    have each: "\<forall>(cid, b) \<in> set cb. 0 < b \<and> b \<le> tot"
      using collected_entry(3,4) [OF run tot] by auto
    have le: "sum_list (map snd cb) \<le> tot"
      using collect_balances_sum [OF run] tot by simp
    have "0 \<le> sum_list (positive_balances ev s t clients)"
      by (intro sum_list_nonneg) (auto simp: positive_balances_def)
    then have tpos: "0 < tot" using nz tot by simp
    have "(of_int (sum_list (map (\<lambda>(cid, d). sats_amount d) ?ds)) :: rat)
            \<le> of_int base * of_int (sum_list (map snd cb)) / of_int tot"
      using share_out_sum [OF out range(1,2) each] .
    also have "\<dots> = of_int base * (of_int (sum_list (map snd cb)) / of_int tot)" by simp
    also have "\<dots> \<le> of_int base * 1"
      using le tpos range(1) by (intro mult_left_mono) simp_all
    finally show ?thesis by simp
  qed
  have none: "?ds = []" if "\<forall>c \<in> set clients. remaining_balance ev s (client_id c) t \<le> 0"
  proof -
    have "positive_balances ev s t clients = []"
      using that by (auto simp: positive_balances_def filter_empty_conv)
    then have "tot = 0" using tot by simp
    then show ?thesis using cases by auto
  qed
  have complete: "fst ` set ?ds
                   = {client_id c | c. c \<in> set clients
                                       \<and> 0 < remaining_balance ev s (client_id c) t}"
    if reads: "\<forall>c \<in> set clients. \<not> raises ev (GetBalance (client_id c))"
  proof -
    from collect_balances_succeeds [OF reads, of s t "[]" 0] obtain cb tot0
      where run0: "collect_balances ev s t clients [] 0 = Inr (cb, tot0)" by blast
    have "tot0 = tot" using collect_balances_total [OF run0] tot by simp
    then have run: "collect_balances ev s t clients [] 0 = Inr (cb, tot)" using run0 by simp
    have keys: "fst ` set cb = {client_id c | c. c \<in> set clients
                                       \<and> 0 < remaining_balance ev s (client_id c) t}"
      using collect_balances_keys [OF run] by simp
    show ?thesis
    proof (cases "clients = [] \<or> tot = 0")
      case True
      have "?ds = []"
        using True by (auto simp: calculate_distribution_amounts_def loops run tx(3))
      moreover have "cb = []"
      proof (cases "clients = []")
        case True
        then show ?thesis using run by simp
      next
        case False
        then have "tot = 0" using True by simp
        show ?thesis
        proof (cases cb)
          case Nil
          then show ?thesis .
        next
          case (Cons a cb')
          obtain cid b where "a = (cid, b)" by (cases a)
          then have "(cid, b) \<in> set cb" using Cons by simp
          from collected_entry(3,4) [OF run tot this] \<open>tot = 0\<close>
          show ?thesis by simp
        qed
      qed
      ultimately show ?thesis using keys by simp
    next
      case False
      have "\<exists>d. client_share base (Fin r) tot b = Inr d" if "(cid, b) \<in> set cb" for cid b
        using client_share_succeeds [OF range(1) collected_entry(3,4) [OF run tot that]
                range(2) rate range(3)] .
      then have "\<forall>(cid, b) \<in> set cb. \<exists>d. client_share base (Fin r) tot b = Inr d" by auto
      from share_out_succeeds [OF this] obtain ds
        where out: "share_out base (Fin r) tot cb = Inr ds" by blast
      have "?ds = ds"
        using False by (simp add: calculate_distribution_amounts_def loops run tx(3) out)
      then have "map fst ?ds = map fst cb" using share_out_keys [OF out] by simp
      then have "set (map fst ?ds) = set (map fst cb)" by simp
      then show ?thesis using keys by simp
    qed
  qed
  show ?thesis
    using shares keys total none complete by (intro conjI ballI impI) auto
qed

theorem allocation_in_double_arithmetic_witness:
  "sum_list (map (\<lambda>(cid, d). sats_amount d)
      (calculate_distribution_amounts payout_env pool_state sale)) \<le> 1000
   \<and> distinct (map fst (calculate_distribution_amounts payout_env pool_state sale))
   \<and> fst ` set (calculate_distribution_amounts payout_env pool_state sale)
       = {''alice'', ''bob'', ''carol''}
   \<and> sum_list (positive_balances payout_env pool_state (Some 900) three_clients) = 4"
proof -
  have tx: "crypto_amount sale = Some 1500" "fiat_amount sale = Some 10"
    "transaction_time sale = Some 900"
    by (simp_all add: sale_def)
  have breakdown: "commission_breakdown (float_or_zero (commission_percentage sale))
                      (float_or_zero (discount sale)) 1500 = Inr (Fin (1 / 2), 1000, 500)"
    by (simp add: sale_def sale_breakdown)
  have rate: "exchange_rate_of 1000 10 = Inr (Fin 100)"
    by (simp add: exchange_rate_of_def int_truediv_def exact_doubles)
  have clients: "get_flow_mode_clients payout_env pool_state = Inr three_clients"
    by (simp add: get_flow_mode_clients_def payout_env_def quiet_env_def pool_state_def)
  have tot: "4 = sum_list (positive_balances payout_env pool_state (Some 900) three_clients)"
    by (simp add: positive_balances_def three_clients_def payout_env_def)
  have range: "(0::int) \<le> 1000" "(1000::int) * 4 < 2 ^ 51" "(10::int) < 2 ^ 51"
    by simp_all
  have reads: "\<forall>c \<in> set three_clients. \<not> raises payout_env (GetBalance (client_id c))"
    by (simp add: three_clients_def payout_env_def quiet_env_def)
  have names: "{client_id c | c. c \<in> set three_clients
                          \<and> 0 < remaining_balance payout_env pool_state (client_id c) (Some 900)}
          = {''alice'', ''bob'', ''carol''}"
    unfolding positive_names by (simp add: three_clients_def payout_env_def)
  note result = allocation_in_double_arithmetic [OF tx breakdown rate clients tot range]
  have "distinct (map fst (calculate_distribution_amounts payout_env pool_state sale))"
    using result [THEN conjunct2, THEN conjunct1] .
  moreover have "sum_list (map (\<lambda>(cid, d). sats_amount d)
      (calculate_distribution_amounts payout_env pool_state sale)) \<le> 1000"
    using result [THEN conjunct2, THEN conjunct2, THEN conjunct1] .
  moreover have "fst ` set (calculate_distribution_amounts payout_env pool_state sale)
       = {''alice'', ''bob'', ''carol''}"
    using result [THEN conjunct2, THEN conjunct2, THEN conjunct2, THEN conjunct2, THEN mp, OF reads]
    by (simp only: names)
  ultimately show ?thesis
    using tot by (simp only: simp_thms)
qed

text \<open>
  The claim as stated fails in exact arithmetic. With a base of 100,000 and balances
  29 and 71 (a third participant has none and is left out), the double nearest to
  \<open>29 / 100\<close> lies below it, the product is 28999.999999999996, and the share is
  28,999 where \<open>floor (100000 \<times> 29 / 100)\<close> is 29,000.
\<close>

theorem share_is_not_the_exact_floor:
  "calculate_distribution_amounts uneven_env pool_state large_sale =
     [(''alice'', \<lparr>dist_fiat_amount = 289, sats_amount = 28999, dist_exchange_rate = Fin 100\<rparr>),
      (''bob'', \<lparr>dist_fiat_amount = 710, sats_amount = 71000, dist_exchange_rate = Fin 100\<rparr>)]
   \<and> spec_share 100000 29 100 = 29000
   \<and> spec_share 100000 71 100 = 71000"
proof -
  have "calculate_distribution_amounts uneven_env pool_state large_sale =
     [(''alice'', \<lparr>dist_fiat_amount = 289, sats_amount = 28999, dist_exchange_rate = Fin 100\<rparr>),
      (''bob'', \<lparr>dist_fiat_amount = 710, sats_amount = 71000, dist_exchange_rate = Fin 100\<rparr>)]"
    by (simp add: calculate_distribution_amounts_def distribution_body_def
        get_flow_mode_clients_def get_client_balance_summary_def commission_breakdown_def
        exchange_rate_of_def int_truediv_def client_share_def float_of_int_def
        toward_zero_def exact_doubles exact_amounts double_29_100 double_29_share
        double_71_100 double_71_share double_28999_100 floor_rat_numeral
        pool_state_def three_clients_def uneven_env_def quiet_env_def large_sale_def sale_def)
  moreover have "spec_share 100000 29 100 = 29000" "spec_share 100000 71 100 = 71000"
    by (simp_all add: spec_share_def)
  ultimately show ?thesis by simp
qed


section \<open>Credit failure\<close>

text \<open>
  Claim C5, as the code has it. When crediting the pooled account fails, processing
  the transaction leaves the state as it was (no stored transaction, no payment, no
  invoice, no commission transfer), the batch goes on with the remaining transactions
  from that same state, and a transaction that had passed the idempotency gate ends
  as a credit failure. It is not the only step that ends a transaction's processing:
  when the credit succeeds and the allocation returns the empty mapping, processing
  ends with the state the credit left, before the distribution and commission steps.
\<close>

theorem credit_failure_aborts_transaction:
  "(fst (credit_source_wallet ev tx s) = False \<longrightarrow>
      snd (process_transaction ev tx s) = s
      \<and> process_all ev (tx # rest) s = process_all ev rest s
      \<and> (get_payments_by_lamassu_transaction ev s (transaction_id tx) = Inr []
           \<longrightarrow> fst (process_transaction ev tx s) = CreditFailed))
   \<and> (get_payments_by_lamassu_transaction ev s (transaction_id tx) = Inr []
        \<and> fst (credit_source_wallet ev tx s) = True
        \<and> calculate_distribution_amounts ev (snd (credit_source_wallet ev tx s)) tx = [] \<longrightarrow>
      process_transaction ev tx s = (NoDistributions, snd (credit_source_wallet ev tx s)))"
proof (intro conjI impI)
  assume failed: "fst (credit_source_wallet ev tx s) = False"
  have unchanged: "snd (credit_source_wallet ev tx s) = s"
    using failed by (rule credit_failure_unchanged)
  have credit: "credit_source_wallet ev tx s = (False, s)"
    using failed unchanged by (simp add: prod_eq_iff)
  show state: "snd (process_transaction ev tx s) = s"
    by (simp add: process_transaction_def credit split: sum.splits)
  then show "process_all ev (tx # rest) s = process_all ev rest s" by simp
  show "fst (process_transaction ev tx s) = CreditFailed"
    if "get_payments_by_lamassu_transaction ev s (transaction_id tx) = Inr []"
    using that by (simp add: process_transaction_def credit)
next
  assume a: "get_payments_by_lamassu_transaction ev s (transaction_id tx) = Inr []
        \<and> fst (credit_source_wallet ev tx s) = True
        \<and> calculate_distribution_amounts ev (snd (credit_source_wallet ev tx s)) tx = []"
  obtain s1 where credit: "credit_source_wallet ev tx s = (True, s1)"
    using a by (cases "credit_source_wallet ev tx s") auto
  then show "process_transaction ev tx s = (NoDistributions, snd (credit_source_wallet ev tx s))"
    using a by (simp add: process_transaction_def store_unchanged)
qed

lemma sale_alone_is_credited:
  "process_all quiet_env [sale] start_state
     = start_state\<lparr>wallets := [(''pool'', 1500), (''fees'', 0)]\<rparr>"
  by (simp add: process_transaction_def get_payments_by_lamassu_transaction_def
        credit_source_wallet_def get_active_lamassu_config_def get_wallet_def
        update_wallet_balance_def store_unchanged calculate_distribution_amounts_def
        distribution_body_def get_flow_mode_clients_def
        quiet_env_def start_state_def pool_config_def sale_def)

theorem credit_failure_aborts_transaction_witness:
  "fst (credit_source_wallet quiet_env sale_without_amount start_state) = False
   \<and> process_transaction quiet_env sale_without_amount start_state = (CreditFailed, start_state)
   \<and> process_all quiet_env [sale_without_amount, sale] start_state
       = start_state\<lparr>wallets := [(''pool'', 1500), (''fees'', 0)]\<rparr>"
proof -
  have fails: "fst (credit_source_wallet quiet_env sale_without_amount start_state) = False"
    by (simp add: credit_source_wallet_def get_active_lamassu_config_def get_wallet_def
          quiet_env_def start_state_def pool_config_def sale_without_amount_def)
  have gate: "get_payments_by_lamassu_transaction quiet_env start_state
                (transaction_id sale_without_amount) = Inr []"
    by (simp add: get_payments_by_lamassu_transaction_def quiet_env_def start_state_def)
  from credit_failure_aborts_transaction
         [of quiet_env sale_without_amount start_state "[sale]", THEN conjunct1, THEN mp, OF fails]
       gate
  have state: "snd (process_transaction quiet_env sale_without_amount start_state) = start_state"
    and batch: "process_all quiet_env [sale_without_amount, sale] start_state
           = process_all quiet_env [sale] start_state"
    and outcome: "fst (process_transaction quiet_env sale_without_amount start_state)
           = CreditFailed"
    by blast+
  have "process_transaction quiet_env sale_without_amount start_state
          = (CreditFailed, start_state)"
    using state outcome by (simp add: prod_eq_iff)
  moreover have "process_all quiet_env [sale_without_amount, sale] start_state
          = start_state\<lparr>wallets := [(''pool'', 1500), (''fees'', 0)]\<rparr>"
    using batch sale_alone_is_credited by (simp only:)
  ultimately show ?thesis
    using fails by blast
qed

text \<open>
  Credit failure is not the one step that ends a transaction's processing. When the
  read of one participant's balance raises, the allocation swallows the exception and
  returns the empty mapping (lines 715-717), and processing returns at lines
  1008-1010: the pooled account has been credited with 1,500, a commission of 500 is
  due, and neither the distribution nor the commission step is attempted.
\<close>

theorem allocation_failure_also_ends_processing:
  "credit_source_wallet balance_unreadable_env sale pool_state
     = (True, pool_state\<lparr>wallets := [(''pool'', 1500), (''fees'', 0), (''alice_wallet'', 0),
                                      (''bob_wallet'', 0), (''carol_wallet'', 0)]\<rparr>)
   \<and> commission_amount sale = Inr 500
   \<and> process_transaction balance_unreadable_env sale pool_state
       = (NoDistributions,
          pool_state\<lparr>wallets := [(''pool'', 1500), (''fees'', 0), (''alice_wallet'', 0),
                                  (''bob_wallet'', 0), (''carol_wallet'', 0)]\<rparr>)"
proof -
  let ?s1 = "pool_state\<lparr>wallets := [(''pool'', 1500), (''fees'', 0), (''alice_wallet'', 0),
                     (''bob_wallet'', 0), (''carol_wallet'', 0)]\<rparr>"
  have gate: "get_payments_by_lamassu_transaction balance_unreadable_env pool_state
                (transaction_id sale) = Inr []"
    by (simp add: get_payments_by_lamassu_transaction_def balance_unreadable_env_def
          payout_env_def quiet_env_def pool_state_def start_state_def)
  have credit: "credit_source_wallet balance_unreadable_env sale pool_state = (True, ?s1)"
    by (simp add: credit_source_wallet_def get_active_lamassu_config_def get_wallet_def
          update_wallet_balance_def balance_unreadable_env_def payout_env_def quiet_env_def
          pool_state_def start_state_def pool_config_def sale_def)
  have commission: "commission_amount sale = Inr 500"
    by (simp add: commission_amount_def sale_def sale_breakdown)
  have none: "calculate_distribution_amounts balance_unreadable_env ?s1 sale = []"
    by (simp add: calculate_distribution_amounts_def distribution_body_def
          get_flow_mode_clients_def get_client_balance_summary_def sale_breakdown
          exchange_rate_of_def int_truediv_def exact_doubles three_clients_def pool_state_def
          balance_unreadable_env_def payout_env_def quiet_env_def sale_def)
  have "process_transaction balance_unreadable_env sale pool_state = (NoDistributions, ?s1)"
    by (simp add: process_transaction_def gate credit store_unchanged none)
  then show ?thesis using credit commission by simp
qed

section \<open>The diagnostic probe\<close>

lemma probe_queries_fall_through:
  "probe_queries ev c r = FallThrough r' \<Longrightarrow> success r'"
  by (auto simp: probe_queries_def Let_def split: if_splits list.splits)

lemma probe_body_fall_through:
  "probe_body ev s = FallThrough r \<Longrightarrow> success r"
  by (auto simp: probe_body_def Let_def dest: probe_queries_fall_through
           split: option.splits flow.splits)

text \<open>
  Claim C7 says that the probe stores its outcome whichever stage failed. The code
  does the opposite: every failing stage leaves through a \<^verbatim>\<open>return result\<close> inside
  the \<^verbatim>\<open>try\<close>, before the statements that store the outcome, so a probe that
  reports failure writes nothing.
\<close>

theorem failed_probe_is_not_stored:
  assumes "\<not> success (fst (test_connection_detailed ev s))"
  shows "snd (test_connection_detailed ev s) = s"
proof (cases "probe_body ev s")
  case (Return r)
  then show ?thesis by (simp add: test_connection_detailed_def)
next
  case (FallThrough r)
  then have "success r" by (rule probe_body_fall_through)
  moreover have "fst (test_connection_detailed ev s) = r"
    using FallThrough by (simp add: test_connection_detailed_def split: option.splits sum.splits)
  ultimately show ?thesis using assms by simp
qed

theorem failed_probe_is_not_stored_witness:
  "use_ssh_tunnel pool_config \<and> \<not> tunnel_established quiet_env
   \<and> \<not> success (fst (test_connection_detailed quiet_env start_state))
   \<and> message (fst (test_connection_detailed quiet_env start_state))
       = ''Failed to establish SSH tunnel''
   \<and> result_config_id (fst (test_connection_detailed quiet_env start_state)) = Some ''cfg''
   \<and> map_option test_connection_success
         (config (snd (test_connection_detailed quiet_env start_state)))
       = Some (Some True)"
proof -
  have report: "fst (test_connection_detailed quiet_env start_state)
      = \<lparr>success = False, message = ''Failed to establish SSH tunnel'',
         steps = [RetrievingConfiguration, ConfigurationRetrieved, SettingUpTunnel, TunnelFailed],
         ssh_tunnel_used = True, ssh_tunnel_success = False,
         database_connection_success = False, result_config_id = Some ''cfg''\<rparr>"
    by (simp add: test_connection_detailed_def probe_body_def probe_tunnel_def
          setup_ssh_tunnel_def get_db_config_def get_active_lamassu_config_def
          quiet_env_def start_state_def pool_config_def initial_result_def add_step_def)
  then have failed: "\<not> success (fst (test_connection_detailed quiet_env start_state))"
    by simp
  have "snd (test_connection_detailed quiet_env start_state) = start_state"
    using failed by (rule failed_probe_is_not_stored)
  then show ?thesis
    using report by (simp add: quiet_env_def start_state_def pool_config_def)
qed

section \<open>The unbound name \<^verbatim>\<open>transaction_time\<close>\<close>



lemma sale_distribution:
  assumes "flow_clients s = three_clients"
  shows "calculate_distribution_amounts payout_env s sale =
     [(''alice'', \<lparr>dist_fiat_amount = 2, sats_amount = 250, dist_exchange_rate = Fin 100\<rparr>),
      (''bob'', \<lparr>dist_fiat_amount = 2, sats_amount = 250, dist_exchange_rate = Fin 100\<rparr>),
      (''carol'', \<lparr>dist_fiat_amount = 5, sats_amount = 500, dist_exchange_rate = Fin 100\<rparr>)]"
  by (simp add: calculate_distribution_amounts_def distribution_body_def
        get_flow_mode_clients_def get_client_balance_summary_def sale_breakdown
        exchange_rate_of_def int_truediv_def client_share_def float_of_int_def
        toward_zero_def exact_doubles floor_rat_numeral assms three_clients_def
        payout_env_def quiet_env_def sale_def)

lemma sale_processed:
  "process_transaction payout_env sale pool_state =
     (Processed,
      pool_state
        \<lparr>wallets := [(''pool'', 1500), (''fees'', 0), (''alice_wallet'', 0),
                     (''bob_wallet'', 0), (''carol_wallet'', 0)],
         invoices := [\<lparr>invoice_wallet = ''fees'', invoice_amount = 500,
                        invoice_tag = ''dca_commission'', invoice_transaction = ''tx1''\<rparr>],
         settled := [(0, ''pool'')]\<rparr>)"
proof -
  let ?s1 = "pool_state\<lparr>wallets := [(''pool'', 1500), (''fees'', 0), (''alice_wallet'', 0),
                     (''bob_wallet'', 0), (''carol_wallet'', 0)]\<rparr>"
  have gate: "get_payments_by_lamassu_transaction payout_env pool_state (transaction_id sale) = Inr []"
    by (simp add: get_payments_by_lamassu_transaction_def payout_env_def quiet_env_def
          pool_state_def start_state_def)
  have credit: "credit_source_wallet payout_env sale pool_state = (True, ?s1)"
    by (simp add: credit_source_wallet_def get_active_lamassu_config_def get_wallet_def
          update_wallet_balance_def payout_env_def quiet_env_def pool_state_def start_state_def
          pool_config_def sale_def)
  have clients: "flow_clients ?s1 = three_clients"
    by (simp add: pool_state_def)
  have commission: "commission_amount sale = Inr 500"
    by (simp add: commission_amount_def sale_def sale_breakdown)
  have pay: "send_commission_payment payout_env sale 500 ?s1 =
     (True, ?s1\<lparr>invoices := [\<lparr>invoice_wallet = ''fees'', invoice_amount = 500,
                        invoice_tag = ''dca_commission'', invoice_transaction = ''tx1''\<rparr>],
         settled := [(0, ''pool'')]\<rparr>)"
    by (simp add: send_commission_payment_def get_active_lamassu_config_def create_invoice_def
          pay_invoice_def payout_env_def quiet_env_def pool_state_def start_state_def
          pool_config_def sale_def)
  show ?thesis
    by (simp add: process_transaction_def gate credit store_unchanged
          sale_distribution [OF clients] commission distribute_unchanged pay Let_def)
qed

lemma processing_frame:
  "payments (snd (process_transaction ev tx s)) = payments s
   \<and> filter (\<lambda>i. invoice_tag i = ''dca_distribution'')
        (invoices (snd (process_transaction ev tx s)))
     = filter (\<lambda>i. invoice_tag i = ''dca_distribution'') (invoices s)"
proof -
  have credit: "invoices (snd (credit_source_wallet ev tx s)) = invoices s"
    by (auto simp: credit_source_wallet_def update_wallet_balance_def call_def
             split: sum.splits option.splits if_splits)
  have commission:
    "filter (\<lambda>i. invoice_tag i = ''dca_distribution'')
       (invoices (snd (send_commission_payment ev tx n s')))
     = filter (\<lambda>i. invoice_tag i = ''dca_distribution'') (invoices s')" for n s'
    by (auto simp: send_commission_payment_def create_invoice_def pay_invoice_def call_def
             split: sum.splits option.splits if_splits prod.splits)
  show ?thesis
    using process_transaction_state [of ev tx s]
    by (auto simp: process_transaction_payments credit commission)
qed

text \<open>
  Claim C6 says that each participant gets a payment record, pending first and then
  confirmed or failed, and that one participant's failure leaves the others and the
  commission step alone. By the unbound name no payment record is ever created and
  no payout invoice is ever issued: processing any transaction leaves the payments as
  they were and adds no distribution invoice. For the sale of 1,500 atomic units with
  three eligible participants the shares are computed (250, 250 and 500), the pooled
  account is credited and the commission of 500 is transferred, and that is all.
\<close>

theorem processing_creates_no_payment:
  "payments (snd (process_transaction ev tx s)) = payments s
   \<and> filter (\<lambda>i. invoice_tag i = ''dca_distribution'')
        (invoices (snd (process_transaction ev tx s)))
     = filter (\<lambda>i. invoice_tag i = ''dca_distribution'') (invoices s)
   \<and> calculate_distribution_amounts payout_env pool_state sale =
     [(''alice'', \<lparr>dist_fiat_amount = 2, sats_amount = 250, dist_exchange_rate = Fin 100\<rparr>),
      (''bob'', \<lparr>dist_fiat_amount = 2, sats_amount = 250, dist_exchange_rate = Fin 100\<rparr>),
      (''carol'', \<lparr>dist_fiat_amount = 5, sats_amount = 500, dist_exchange_rate = Fin 100\<rparr>)]
   \<and> process_transaction payout_env sale pool_state =
     (Processed,
      pool_state
        \<lparr>wallets := [(''pool'', 1500), (''fees'', 0), (''alice_wallet'', 0),
                     (''bob_wallet'', 0), (''carol_wallet'', 0)],
         invoices := [\<lparr>invoice_wallet = ''fees'', invoice_amount = 500,
                        invoice_tag = ''dca_commission'', invoice_transaction = ''tx1''\<rparr>],
         settled := [(0, ''pool'')]\<rparr>)"
proof -
  have "flow_clients pool_state = three_clients"
    by (simp add: pool_state_def)
  then show ?thesis
    using processing_frame [of ev tx s] sale_processed
    by (simp only: sale_distribution simp_thms)
qed

section \<open>The stored test result\<close>

text \<open>
  Claim C10, as the code has it. In a poll cycle whose read of the configuration
  does not raise and finds a record, and whose write of the flag does not raise,
  \<^verbatim>\<open>connect_to_lamassu_db\<close> stores \<^verbatim>\<open>True\<close> as the last test result before
  anything else happens, and the flag is still \<^verbatim>\<open>True\<close> when the cycle ends,
  whatever the tunnel and the remote host do. A cycle whose read of the configuration
  raises changes nothing, and a cycle whose write of the flag raises goes on with the
  flag as it was.
\<close>

theorem poll_overwrites_test_result:
  assumes "config s = Some c"
  shows "(\<not> raises ev GetActiveConfig \<and> \<not> raises ev UpdateTestResult \<longrightarrow>
           connect_to_lamassu_db ev s
             = (Some c, s\<lparr>config := Some (c\<lparr>test_connection_success := Some True\<rparr>)\<rparr>)
           \<and> map_option test_connection_success (config (snd (poll_and_process ev s)))
               = Some (Some True))
       \<and> (raises ev GetActiveConfig \<longrightarrow> poll_and_process ev s = (NoConfiguration, s))
       \<and> (\<not> raises ev GetActiveConfig \<and> raises ev UpdateTestResult \<longrightarrow>
           connect_to_lamassu_db ev s = (Some c, s)
           \<and> map_option test_connection_success (config (snd (poll_and_process ev s)))
               = Some (test_connection_success c))"
proof (intro conjI impI)
  assume a: "\<not> raises ev GetActiveConfig \<and> \<not> raises ev UpdateTestResult"
  let ?s1 = "s\<lparr>config := Some (c\<lparr>test_connection_success := Some True\<rparr>)\<rparr>"
  show connect: "connect_to_lamassu_db ev s = (Some c, ?s1)"
    using assms a by (simp add: connect_result get_db_config_Some)
  show "map_option test_connection_success (config (snd (poll_and_process ev s)))
          = Some (Some True)"
    by (auto simp: poll_and_process_def connect update_poll_start_time_def
                   update_poll_success_time_def call_def Let_def process_all_config
             split: sum.splits)
next
  assume "raises ev GetActiveConfig"
  then show "poll_and_process ev s = (NoConfiguration, s)"
    by (simp add: poll_and_process_def connect_to_lamassu_db_def get_db_config_def
          get_active_lamassu_config_def)
next
  assume a: "\<not> raises ev GetActiveConfig \<and> raises ev UpdateTestResult"
  show connect: "connect_to_lamassu_db ev s = (Some c, s)"
    using assms a by (simp add: connect_result get_db_config_Some)
  show "map_option test_connection_success (config (snd (poll_and_process ev s)))
          = Some (test_connection_success c)"
    using assms
    by (auto simp: poll_and_process_def connect update_poll_start_time_def
                   update_poll_success_time_def call_def Let_def process_all_config
             split: sum.splits)
qed

theorem poll_overwrites_test_result_witness:
  "map_option test_connection_success (config failed_probe_state) = Some (Some False)
   \<and> \<not> tunnel_established quiet_env
   \<and> remote_transactions quiet_env 5 = []
   \<and> map_option test_connection_success
         (config (snd (poll_and_process quiet_env failed_probe_state)))
       = Some (Some True)"
proof -
  have cfg: "config failed_probe_state
               = Some (pool_config\<lparr>test_connection_success := Some False\<rparr>)"
    by (simp add: failed_probe_state_def)
  have quiet: "\<not> raises quiet_env GetActiveConfig" "\<not> raises quiet_env UpdateTestResult"
    by (simp_all add: quiet_env_def)
  from poll_overwrites_test_result [OF cfg, of quiet_env] quiet
  have "map_option test_connection_success
          (config (snd (poll_and_process quiet_env failed_probe_state))) = Some (Some True)"
    by blast
  then show ?thesis
    by (simp add: failed_probe_state_def quiet_env_def)
qed

text \<open>
  The existence of a configuration record is not enough. When the write of the flag
  raises, \<^verbatim>\<open>connect_to_lamassu_db\<close> logs a warning (lines 389-392) and the cycle
  goes on to completion with the recorded failure still in place.
\<close>

theorem failed_flag_write_keeps_test_result:
  "map_option test_connection_success (config failed_probe_state) = Some (Some False)
   \<and> raises flag_write_fails_env UpdateTestResult
   \<and> get_db_config flag_write_fails_env failed_probe_state
       = Some (pool_config\<lparr>test_connection_success := Some False\<rparr>)
   \<and> poll_and_process flag_write_fails_env failed_probe_state
       = (Completed 0,
          failed_probe_state
            \<lparr>config := Some (pool_config\<lparr>test_connection_success := Some False,
                                         last_poll_time := Some 1000,
                                         last_successful_poll := Some 1000\<rparr>)\<rparr>)"
  by (simp add: poll_and_process_def connect_to_lamassu_db_def get_db_config_def
        get_active_lamassu_config_def update_config_test_result_def update_poll_start_time_def
        update_poll_success_time_def fetch_new_transactions_def get_all_payments_def
        execute_ssh_query_def call_def Let_def
        flag_write_fails_env_def quiet_env_def failed_probe_state_def start_state_def
        pool_config_def)

end
